theory Spec2Isabelle
  imports Main "HOL-Library.Sublist"
begin

section \<open>Data model of the HTML minimizer plugin (src/index.js)\<close>

text \<open>
  Values that reach \<open>buildWarning\<close> and \<open>buildError\<close> are typed \<open>any\<close> in the source.
  The two functions observe of such a value only whether a property can be read from it
  at all, whether it is a string, whether it is an instance of \<open>Error\<close>, its \<open>message\<close>
  and \<open>stack\<close> properties and its \<open>toString()\<close>. \<open>JNullish\<close> is \<open>null\<close> or \<open>undefined\<close>,
  on which every property read raises a \<open>TypeError\<close>; in \<open>JObject\<close>, \<open>None\<close> stands for a
  property that is \<open>undefined\<close>.
\<close>

datatype js_value =
    JNullish
  | JString string
  | JObject bool "string option" "string option" string
    \<comment> \<open>instanceof Error, message, stack, toString()\<close>

text \<open>What a statement of the routine raises, and how a promise settles.\<close>

datatype exception = TypeError

datatype completion = Fulfilled | Rejected exception

text \<open>The \<open>Error\<close> objects pushed onto \<open>compilation.errors\<close> and \<open>compilation.warnings\<close>.\<close>

record webpack_error =
  error_name :: string
  message :: string
  error_file :: string
  hideStack :: bool

text \<open>What \<open>source.source()\<close> returns: a string or a Buffer.\<close>

datatype content = Text string | Buffer string

record asset_info =
  minimized :: bool

record asset =
  source :: content
  info :: asset_info

text \<open>\<open>InternalOptions\<close>: the minimizer field is fixed configuration and lives in the
  collaborators below.\<close>

record internal_options =
  opt_name :: string
  opt_input :: string

text \<open>
  What a minimization call resolves to. \<open>code\<close> is \<open>Some\<close> of a string or a Buffer, the
  two values \<open>new RawSource\<close> accepts; \<open>None\<close> stands for every other resolved value (a
  result whose \<open>code\<close> is missing or of another type, or a result that is no object), on
  which line 391 raises.
\<close>

record internal_result =
  code :: "content option"
  result_warnings :: "js_value list"
  result_errors :: "js_value list"

text \<open>The object handed to \<open>cacheItem.storePromise\<close> and read back by \<open>getPromise\<close>.\<close>

record cache_entry =
  stored_source :: content
  stored_errors :: "js_value list"
  stored_warnings :: "js_value list"

text \<open>\<open>Parallel\<close> is \<open>undefined | boolean | number\<close>.\<close>

datatype parallel = Undefined | Boolean bool | Number int

text \<open>
  Calls that leave the plugin are logged in order, so that statements about which
  collaborator was called, how often and in which order can be made.
\<close>

datatype event =
    NewWorker int
  | Transform internal_options
  | Minify internal_options
  | StorePromise "string \<times> string" cache_entry
  | UpdateAsset string
  | ThrottleAll int nat
  | EndWorker

text \<open>
  The compilation as the optimize routine sees it: the asset table in key order, the two
  sinks, the cache of \<open>compilation.getCache\<close> keyed by asset name and etag, the local
  variable \<open>initializedWorker\<close> of the pass, and the log of calls.
\<close>

record state =
  assets :: "(string \<times> asset) list"
  errors :: "webpack_error list"
  warnings :: "webpack_error list"
  cache :: "string \<times> string \<Rightarrow> cache_entry option"
  initializedWorker :: "int option"
  events :: "event list"

text \<open>
  Code outside src/index.js that the routine calls: the rule matcher of webpack bound to
  the plugin's test/include/exclude options, the etag of a source, \<open>Buffer.toString\<close>,
  the in-process \<open>minify\<close> of ./minify and the \<open>transform\<close> method of the worker
  (composed with \<open>serialize\<close>). A call that throws or rejects returns \<open>Inl\<close> of the
  thrown value, which may be \<open>JNullish\<close>.
\<close>

record collaborators =
  matchObject :: "string \<Rightarrow> bool"
  getLazyHashedEtag :: "content \<Rightarrow> string"
  bufferToString :: "string \<Rightarrow> string"
  minify :: "internal_options \<Rightarrow> js_value + internal_result"
  transform :: "internal_options \<Rightarrow> js_value + internal_result"

text \<open>One element of \<open>assetsForMinify\<close>.\<close>

record item =
  name :: string
  item_info :: asset_info
  inputSource :: content
  item_output :: "cache_entry option"
  cacheItem :: "string \<times> string"

section \<open>The functions of src/index.js\<close>

definition newline :: string where
  "newline = [CHR 0x0A]"

definition truthy :: "string option \<Rightarrow> bool" where
  "truthy v = (case v of None \<Rightarrow> False | Some x \<Rightarrow> x \<noteq> [])"

text \<open>\<open>buildWarning\<close> (lines 179 to 196): on \<open>null\<close> or \<open>undefined\<close> the read of
  \<open>warning.message\<close> raises.\<close>

fun buildWarning :: "js_value \<Rightarrow> string \<Rightarrow> exception + webpack_error" where
  "buildWarning JNullish fname = Inl TypeError"
| "buildWarning (JString w) fname =
     Inr \<lparr>error_name = ''Warning'', message = w, error_file = fname, hideStack = True\<rparr>"
| "buildWarning (JObject is_error msg stack str) fname =
     Inr \<lparr>error_name = ''Warning'',
          message = (if is_error then (case msg of Some m \<Rightarrow> m | None \<Rightarrow> [])
                     else (case msg of Some m \<Rightarrow> m | None \<Rightarrow> str)),
          error_file = fname, hideStack = True\<rparr>"

text \<open>\<open>buildError\<close> (lines 204 to 235): on \<open>null\<close> or \<open>undefined\<close> the read of
  \<open>error.stack\<close> raises.\<close>

fun buildError :: "js_value \<Rightarrow> string \<Rightarrow> exception + webpack_error" where
  "buildError JNullish fname = Inl TypeError"
| "buildError (JString e) fname =
     Inr \<lparr>error_name = ''Error'',
          message = fname @ '' from Html Minimizer plugin'' @ newline @ e,
          error_file = fname, hideStack = False\<rparr>"
| "buildError (JObject is_error msg stack str) fname =
     (if truthy stack
      then Inr \<lparr>error_name = ''Error'',
                message = fname @ '' from Html Minimizer plugin'' @ newline
                  @ (case msg of Some m \<Rightarrow> m | None \<Rightarrow> []) @ newline
                  @ (case stack of Some st \<Rightarrow> st | None \<Rightarrow> []),
                error_file = fname, hideStack = False\<rparr>
      else Inr \<lparr>error_name = ''Error'',
                message = fname @ '' from Html Minimizer plugin'' @ newline
                  @ (case msg of Some m \<Rightarrow> m | None \<Rightarrow> ''undefined''),
                error_file = fname, hideStack = False\<rparr>)"

text \<open>The constructor's default \<open>parallel = true\<close>, taken when the option is absent.\<close>

definition constructor_parallel :: "parallel \<Rightarrow> parallel" where
  "constructor_parallel p = (case p of Undefined \<Rightarrow> Boolean True | _ \<Rightarrow> p)"

text \<open>\<open>os_cpus\<close> is the length of \<open>os.cpus()\<close>, \<open>None\<close> when that call returns
  \<open>undefined\<close>. \<open>Number(parallel) || 0\<close> is 0 for \<open>false\<close> and \<open>undefined\<close>.\<close>

definition cpus_length :: "nat option \<Rightarrow> int" where
  "cpus_length os_cpus = (case os_cpus of None \<Rightarrow> 1 | Some n \<Rightarrow> int n)"

definition getAvailableNumberOfCores :: "nat option \<Rightarrow> parallel \<Rightarrow> int" where
  "getAvailableNumberOfCores os_cpus p =
     (case p of
        Boolean True \<Rightarrow> cpus_length os_cpus - 1
      | Boolean False \<Rightarrow> min 0 (cpus_length os_cpus - 1)
      | Undefined \<Rightarrow> min 0 (cpus_length os_cpus - 1)
      | Number n \<Rightarrow> min n (cpus_length os_cpus - 1))"

text \<open>The filter and the cache lookup that build \<open>assetsForMinify\<close>.\<close>

definition survives :: "collaborators \<Rightarrow> string \<times> asset \<Rightarrow> bool" where
  "survives c na = (if minimized (info (snd na)) then False
                    else if \<not> matchObject c (fst na) then False
                    else True)"

definition lookup :: "collaborators \<Rightarrow> state \<Rightarrow> string \<times> asset \<Rightarrow> item" where
  "lookup c s na =
     (let eTag = getLazyHashedEtag c (source (snd na))
      in \<lparr>name = fst na, item_info = info (snd na), inputSource = source (snd na),
          item_output = cache s (fst na, eTag), cacheItem = (fst na, eTag)\<rparr>)"

definition assetsForMinify :: "collaborators \<Rightarrow> state \<Rightarrow> item list" where
  "assetsForMinify c s = map (lookup c s) (filter (survives c) (assets s))"

definition numberOfAssets :: "item list \<Rightarrow> int" where
  "numberOfAssets items = int (length (filter (\<lambda>i. item_output i = None) items))"

text \<open>\<open>getWorker\<close> and \<open>numberOfWorkers\<close> are assigned together, so one option stands for
  both: \<open>Some n\<close> is a defined accessor whose pool has \<open>n\<close> workers.\<close>

definition numberOfWorkers :: "int \<Rightarrow> item list \<Rightarrow> int option" where
  "numberOfWorkers availableNumberOfCores items =
     (if availableNumberOfCores > 0
      then Some (min (numberOfAssets items) availableNumberOfCores)
      else None)"

definition getWorker :: "int \<Rightarrow> state \<Rightarrow> state" where
  "getWorker n s =
     (case initializedWorker s of
        Some w \<Rightarrow> s
      | None \<Rightarrow> s\<lparr>initializedWorker := Some n, events := events s @ [NewWorker n]\<rparr>)"

definition updateAsset :: "string \<Rightarrow> content \<Rightarrow> state \<Rightarrow> state" where
  "updateAsset n src s =
     s\<lparr>assets := map (\<lambda>(k, a). if k = n
                                 then (k, \<lparr>source = src, info = (info a)\<lparr>minimized := True\<rparr>\<rparr>)
                                 else (k, a)) (assets s),
       events := events s @ [UpdateAsset n]\<rparr>"

definition storePromise :: "string \<times> string \<Rightarrow> cache_entry \<Rightarrow> state \<Rightarrow> state" where
  "storePromise key entry s =
     s\<lparr>cache := (cache s)(key \<mapsto> entry), events := events s @ [StorePromise key entry]\<rparr>"

text \<open>The two loops of lines 402 to 418: each entry is built and pushed in turn, and a
  raise of the builder ends the loop with what was pushed before it.\<close>

fun push_warnings :: "string \<Rightarrow> js_value list \<Rightarrow> state \<Rightarrow> completion \<times> state" where
  "push_warnings n [] s = (Fulfilled, s)"
| "push_warnings n (v # vs) s =
     (case buildWarning v n of
        Inl x \<Rightarrow> (Rejected x, s)
      | Inr built \<Rightarrow> push_warnings n vs (s\<lparr>warnings := warnings s @ [built]\<rparr>))"

fun push_errors :: "string \<Rightarrow> js_value list \<Rightarrow> state \<Rightarrow> completion \<times> state" where
  "push_errors n [] s = (Fulfilled, s)"
| "push_errors n (v # vs) s =
     (case buildError v n of
        Inl x \<Rightarrow> (Rejected x, s)
      | Inr built \<Rightarrow> push_errors n vs (s\<lparr>errors := errors s @ [built]\<rparr>))"

text \<open>The part of a task after \<open>output\<close> is known (lines 400 to 420).\<close>

definition finish :: "string \<Rightarrow> cache_entry \<Rightarrow> state \<Rightarrow> completion \<times> state" where
  "finish n out s =
     (case push_warnings n (stored_warnings out) s of
        (Rejected x, s1) \<Rightarrow> (Rejected x, s1)
      | (Fulfilled, s1) \<Rightarrow>
          (case push_errors n (stored_errors out) s1 of
             (Rejected x, s2) \<Rightarrow> (Rejected x, s2)
           | (Fulfilled, s2) \<Rightarrow> (Fulfilled, updateAsset n (stored_source out) s2)))"

text \<open>The awaited call of line 379, with the state after it.\<close>

definition invoke ::
  "collaborators \<Rightarrow> int option \<Rightarrow> internal_options \<Rightarrow> state
    \<Rightarrow> (js_value + internal_result) \<times> state" where
  "invoke c workers options s =
     (case workers of
        Some n \<Rightarrow> (let s' = getWorker n s
                   in (transform c options, s'\<lparr>events := events s' @ [Transform options]\<rparr>))
      | None \<Rightarrow> (minify c options, s\<lparr>events := events s @ [Minify options]\<rparr>))"

text \<open>The \<open>options\<close> object of a task (lines 360 to 376): a Buffer is decoded first.\<close>

definition options_of :: "collaborators \<Rightarrow> item \<Rightarrow> internal_options" where
  "options_of c i =
     \<lparr>opt_name = name i,
      opt_input = (case inputSource i of Text t \<Rightarrow> t | Buffer b \<Rightarrow> bufferToString c b)\<rparr>"

text \<open>The object passed to \<open>storePromise\<close> (lines 393 to 397), with
  \<open>output.source = new RawSource(output.code)\<close>.\<close>

definition stored :: "content \<Rightarrow> internal_result \<Rightarrow> cache_entry" where
  "stored src result = \<lparr>stored_source = src,
                         stored_errors = result_errors result,
                         stored_warnings = result_warnings result\<rparr>"

text \<open>
  One scheduled task (lines 355 to 421). The \<open>try\<close> covers the call only: a raise of
  \<open>buildError\<close> in the \<open>catch\<close> clause, of \<open>new RawSource\<close> or of a builder in the two
  loops rejects the task, with the effects made before the raise.
\<close>

definition task :: "collaborators \<Rightarrow> int option \<Rightarrow> item \<Rightarrow> state \<Rightarrow> completion \<times> state" where
  "task c workers i s =
     (case item_output i of
        Some out \<Rightarrow> finish (name i) out s
      | None \<Rightarrow>
          (case invoke c workers (options_of c i) s of
             (Inl error, s1) \<Rightarrow>
               (case buildError error (name i) of
                  Inl x \<Rightarrow> (Rejected x, s1)
                | Inr built \<Rightarrow> (Fulfilled, s1\<lparr>errors := errors s1 @ [built]\<rparr>))
           | (Inr result, s1) \<Rightarrow>
               (case code result of
                  None \<Rightarrow> (Rejected TypeError, s1)
                | Some src \<Rightarrow>
                    finish (name i) (stored src result)
                      (storePromise (cacheItem i) (stored src result) s1))))"

text \<open>
  Modelled from the spec: \<open>throttleAll\<close> of src/utils.js is not among the sources. The
  spec's Throttle starts the tasks of the list in their order, keeps at most \<open>limit\<close> of
  them in flight, lets no rejection of a task keep another task from running, and settles
  once every task has settled. The model logs the limit and the number of tasks, runs
  each task to its end before it starts the next one, runs every task whatever the
  earlier ones did, and settles as the first task that rejected, if one did. The
  interleaving of tasks at their \<open>await\<close> points is not represented. The properties
  below are therefore stated per asset, on the events, diagnostics, cache entries and
  table entry under one asset name, which only the task of that asset touches.
\<close>

fun run_all :: "(state \<Rightarrow> completion \<times> state) list \<Rightarrow> state \<Rightarrow> completion \<times> state" where
  "run_all [] s = (Fulfilled, s)"
| "run_all (t # ts) s =
     (case t s of
        (r, s1) \<Rightarrow>
          (case run_all ts s1 of
             (r', s2) \<Rightarrow> (case r of Fulfilled \<Rightarrow> r' | Rejected x \<Rightarrow> Rejected x, s2)))"

definition throttleAll ::
  "int \<Rightarrow> (state \<Rightarrow> completion \<times> state) list \<Rightarrow> state \<Rightarrow> completion \<times> state" where
  "throttleAll limit tasks s =
     run_all tasks (s\<lparr>events := events s @ [ThrottleAll limit (length tasks)]\<rparr>)"

definition limit_of :: "int option \<Rightarrow> item list \<Rightarrow> int" where
  "limit_of workers items =
     (case workers of
        Some n \<Rightarrow> if numberOfAssets items > 0 then n else int (length items)
      | None \<Rightarrow> int (length items))"

text \<open>The optimize routine; its \<open>assets\<close> argument is the compilation's asset table. A
  rejection of \<open>throttleAll\<close> leaves the routine at line 429, before the teardown.\<close>

definition optimize :: "collaborators \<Rightarrow> int \<Rightarrow> state \<Rightarrow> completion \<times> state" where
  "optimize c availableNumberOfCores s =
     (let items = assetsForMinify c s
      in if items = [] then (Fulfilled, s)
         else
           (let workers = numberOfWorkers availableNumberOfCores items;
                scheduledTasks = map (task c workers) items
            in case throttleAll (limit_of workers items) scheduledTasks
                      (s\<lparr>initializedWorker := None\<rparr>) of
                 (Rejected x, s1) \<Rightarrow> (Rejected x, s1)
               | (Fulfilled, s1) \<Rightarrow>
                   (case initializedWorker s1 of
                      Some w \<Rightarrow> (Fulfilled, s1\<lparr>events := events s1 @ [EndWorker]\<rparr>)
                    | None \<Rightarrow> (Fulfilled, s1))))"

text \<open>\<open>apply\<close>: the number of cores is computed once from the constructed options and
  handed to every optimize pass.\<close>

definition apply_plugin ::
  "collaborators \<Rightarrow> nat option \<Rightarrow> parallel \<Rightarrow> state \<Rightarrow> completion \<times> state" where
  "apply_plugin c os_cpus parallel_option s =
     optimize c (getAvailableNumberOfCores os_cpus (constructor_parallel parallel_option)) s"

section \<open>Notions used to state the properties\<close>

text \<open>What the awaited call of line 379 settles to: the worker's \<open>transform\<close> when the
  accessor is defined, the in-process \<open>minify\<close> otherwise.\<close>

definition minimization ::
  "collaborators \<Rightarrow> int option \<Rightarrow> internal_options \<Rightarrow> js_value + internal_result" where
  "minimization c workers options =
     (case workers of Some n \<Rightarrow> transform c options | None \<Rightarrow> minify c options)"

text \<open>The logged event of that call.\<close>

definition call :: "int option \<Rightarrow> internal_options \<Rightarrow> event" where
  "call workers options =
     (case workers of Some n \<Rightarrow> Transform options | None \<Rightarrow> Minify options)"

text \<open>
  What a task works with after the lookup and the call: the thrown value, or the
  \<open>output\<close> it goes on with, read from the cache or made from the result of the call;
  \<open>None\<close> when the result has no code that \<open>RawSource\<close> accepts.
\<close>

definition settled ::
  "collaborators \<Rightarrow> int option \<Rightarrow> item \<Rightarrow> js_value + cache_entry option" where
  "settled c workers i =
     (case item_output i of
        Some out \<Rightarrow> Inr (Some out)
      | None \<Rightarrow> (case minimization c workers (options_of c i) of
                   Inl e \<Rightarrow> Inl e
                 | Inr result \<Rightarrow> Inr (map_option (\<lambda>src. stored src result) (code result))))"

text \<open>The warnings and errors a loop pushes: those built before the first entry that is
  \<open>null\<close> or \<open>undefined\<close>.\<close>

fun built_warnings :: "string \<Rightarrow> js_value list \<Rightarrow> webpack_error list" where
  "built_warnings n [] = []"
| "built_warnings n (v # vs) =
     (case buildWarning v n of Inl x \<Rightarrow> [] | Inr built \<Rightarrow> built # built_warnings n vs)"

fun built_errors :: "string \<Rightarrow> js_value list \<Rightarrow> webpack_error list" where
  "built_errors n [] = []"
| "built_errors n (v # vs) =
     (case buildError v n of Inl x \<Rightarrow> [] | Inr built \<Rightarrow> built # built_errors n vs)"

text \<open>An output whose lists hold no \<open>null\<close> or \<open>undefined\<close>: both loops run to their end.\<close>

definition replayable :: "cache_entry \<Rightarrow> bool" where
  "replayable out =
     (JNullish \<notin> set (stored_warnings out) \<and> JNullish \<notin> set (stored_errors out))"

text \<open>Whether a task rejects.\<close>

definition rejects :: "collaborators \<Rightarrow> int option \<Rightarrow> item \<Rightarrow> bool" where
  "rejects c w i =
     (case settled c w i of
        Inl e \<Rightarrow> e = JNullish
      | Inr None \<Rightarrow> True
      | Inr (Some out) \<Rightarrow> \<not> replayable out)"

text \<open>What one task pushes onto the two sinks and what it writes into the asset table:
  the warnings loop comes first, the errors loop runs only when no warning raised, and
  the update only when no diagnostic raised.\<close>

definition pushed_warnings :: "collaborators \<Rightarrow> int option \<Rightarrow> item \<Rightarrow> webpack_error list" where
  "pushed_warnings c w i =
     (case settled c w i of
        Inr (Some out) \<Rightarrow> built_warnings (name i) (stored_warnings out)
      | _ \<Rightarrow> [])"

definition pushed_errors :: "collaborators \<Rightarrow> int option \<Rightarrow> item \<Rightarrow> webpack_error list" where
  "pushed_errors c w i =
     (case settled c w i of
        Inl e \<Rightarrow> built_errors (name i) [e]
      | Inr None \<Rightarrow> []
      | Inr (Some out) \<Rightarrow>
          if JNullish \<in> set (stored_warnings out) then []
          else built_errors (name i) (stored_errors out))"

definition written :: "collaborators \<Rightarrow> int option \<Rightarrow> item \<Rightarrow> content option" where
  "written c w i =
     (case settled c w i of
        Inr (Some out) \<Rightarrow> if replayable out then Some (stored_source out) else None
      | _ \<Rightarrow> None)"

text \<open>Whether a logged event concerns the asset of a given name.\<close>

fun about :: "string \<Rightarrow> event \<Rightarrow> bool" where
  "about n (Transform options) = (opt_name options = n)"
| "about n (Minify options) = (opt_name options = n)"
| "about n (StorePromise key entry) = (fst key = n)"
| "about n (UpdateAsset k) = (k = n)"
| "about n (NewWorker w) = False"
| "about n (ThrottleAll l k) = False"
| "about n EndWorker = False"

text \<open>The events one task logs about its asset.\<close>

definition trace :: "collaborators \<Rightarrow> int option \<Rightarrow> item \<Rightarrow> event list" where
  "trace c w i =
     (case item_output i of
        Some out \<Rightarrow> (if replayable out then [UpdateAsset (name i)] else [])
      | None \<Rightarrow>
          (case minimization c w (options_of c i) of
             Inl e \<Rightarrow> [call w (options_of c i)]
           | Inr result \<Rightarrow>
               (case code result of
                  None \<Rightarrow> [call w (options_of c i)]
                | Some src \<Rightarrow>
                    [call w (options_of c i), StorePromise (cacheItem i) (stored src result)]
                    @ (if replayable (stored src result) then [UpdateAsset (name i)] else []))))"

text \<open>The sizes of the pools constructed, the limits given to the Throttle, the options
  sent to a worker and the keys of the cache writes, as a log records them.\<close>

definition pools :: "event list \<Rightarrow> int list" where
  "pools evs = concat (map (\<lambda>ev. case ev of NewWorker n \<Rightarrow> [n] | _ \<Rightarrow> []) evs)"

definition limits :: "event list \<Rightarrow> int list" where
  "limits evs = concat (map (\<lambda>ev. case ev of ThrottleAll l k \<Rightarrow> [l] | _ \<Rightarrow> []) evs)"

definition transforms :: "event list \<Rightarrow> internal_options list" where
  "transforms evs =
     concat (map (\<lambda>ev. case ev of Transform options \<Rightarrow> [options] | _ \<Rightarrow> []) evs)"

definition stores :: "event list \<Rightarrow> (string \<times> string) list" where
  "stores evs = concat (map (\<lambda>ev. case ev of StorePromise key entry \<Rightarrow> [key] | _ \<Rightarrow> []) evs)"

text \<open>The state after the tasks of a pass, run in their order from a state.\<close>

definition run :: "collaborators \<Rightarrow> int option \<Rightarrow> item list \<Rightarrow> state \<Rightarrow> state" where
  "run c workers items s = snd (run_all (map (task c workers) items) s)"

text \<open>The same collaborators, except that the minimization call for one \<open>options\<close>
  object settles to a given outcome.\<close>

definition with_outcome ::
  "collaborators \<Rightarrow> internal_options \<Rightarrow> js_value + internal_result \<Rightarrow> collaborators" where
  "with_outcome c options r =
     c\<lparr>minify := (minify c)(options := r), transform := (transform c)(options := r)\<rparr>"

section \<open>Example inputs\<close>

definition page :: "string \<Rightarrow> asset" where
  "page t = \<lparr>source = Text t, info = \<lparr>minimized = False\<rparr>\<rparr>"

text \<open>A minimizer that throws a string on b.html, reports an error in its result for
  c.html, throws \<open>undefined\<close> on n.html, resolves without code on m.html and gives a
  warning for every other asset.\<close>

definition example_minify :: "internal_options \<Rightarrow> js_value + internal_result" where
  "example_minify options =
     (if opt_name options = ''b.html'' then Inl (JString ''bad markup'')
      else if opt_name options = ''n.html'' then Inl JNullish
      else if opt_name options = ''m.html''
      then Inr \<lparr>code = None, result_warnings = [], result_errors = []\<rparr>
      else if opt_name options = ''c.html''
      then Inr \<lparr>code = Some (Text ''<p>c</p>''), result_warnings = [],
                result_errors = [JString ''unclosed tag'']\<rparr>
      else Inr \<lparr>code = Some (Text ''<p>hi</p>''),
                result_warnings = [JString ''odd attribute''], result_errors = []\<rparr>)"

definition example_collaborators :: collaborators where
  "example_collaborators =
     \<lparr>matchObject = (\<lambda>n. n \<noteq> ''main.js''),
      getLazyHashedEtag = (\<lambda>src. case src of Text t \<Rightarrow> t | Buffer b \<Rightarrow> b),
      bufferToString = (\<lambda>b. b),
      minify = example_minify,
      transform = example_minify\<rparr>"

definition cached_e :: cache_entry where
  "cached_e = \<lparr>stored_source = Text ''<p>e</p>'',
                stored_errors = [JString ''stale entity''],
                stored_warnings = [JString ''cached warning'']\<rparr>"

definition example_state :: state where
  "example_state =
     \<lparr>assets = [(''e.html'', page ''<p> e </p>''),
                (''a.html'', page ''<p> hi </p>''),
                (''b.html'', page ''<b> ''),
                (''c.html'', page ''<p> c''),
                (''main.js'', page ''let x''),
                (''d.html'', \<lparr>source = Text ''<p>d</p>'', info = \<lparr>minimized = True\<rparr>\<rparr>)],
      errors = [], warnings = [],
      cache = [(''e.html'', ''<p> e </p>'') \<mapsto> cached_e],
      initializedWorker = None, events = []\<rparr>"

definition only_c :: state where
  "only_c = \<lparr>assets = [(''c.html'', page ''<p> c'')], errors = [], warnings = [],
             cache = Map.empty, initializedWorker = None, events = []\<rparr>"

text \<open>An asset on which the example minimizer throws \<open>undefined\<close>, beside one it
  minimizes.\<close>

definition nullish_throw :: state where
  "nullish_throw =
     \<lparr>assets = [(''n.html'', page ''<i> ''), (''a.html'', page ''<p> hi </p>'')],
      errors = [], warnings = [], cache = Map.empty,
      initializedWorker = None, events = []\<rparr>"

text \<open>A cache entry whose second warning is \<open>null\<close>, as an earlier pass stores it when a
  minimizer returns such a list.\<close>

definition cached_null :: cache_entry where
  "cached_null = \<lparr>stored_source = Text ''<p>e</p>'',
                   stored_errors = [JString ''stale entity''],
                   stored_warnings = [JString ''cached warning'', JNullish]\<rparr>"

definition nullish_cached :: state where
  "nullish_cached =
     \<lparr>assets = [(''e.html'', page ''<p> e </p>'')],
      errors = [], warnings = [],
      cache = [(''e.html'', ''<p> e </p>'') \<mapsto> cached_null],
      initializedWorker = None, events = []\<rparr>"

definition pages :: "string list \<Rightarrow> state" where
  "pages ns = \<lparr>assets = map (\<lambda>n. (n, page ''<p> hi </p>'')) ns, errors = [], warnings = [],
               cache = Map.empty, initializedWorker = None, events = []\<rparr>"

definition five_pages :: state where
  "five_pages = pages [''1.html'', ''2.html'', ''3.html'', ''4.html'', ''5.html'']"

definition ten_pages :: state where
  "ten_pages = pages [''0.html'', ''1.html'', ''2.html'', ''3.html'', ''4.html'',
                      ''5.html'', ''6.html'', ''7.html'', ''8.html'', ''9.html'']"

section \<open>What one task does\<close>

lemma run_Nil: "run c w [] s = s" by (simp add: run_def)

lemma run_Cons: "run c w (i # is) s = run c w is (snd (task c w i s))"
  by (simp add: run_def split: prod.splits)

lemma run_append: "run c w (xs @ ys) s = run c w ys (run c w xs s)"
  by (induction xs arbitrary: s) (simp_all add: run_Nil run_Cons)

lemma exception_eq: "(x::exception) = TypeError"
  by (cases x) simp

lemma buildError_Inl: "(buildError e n = Inl x) = (e = JNullish)"
  by (cases e; cases x) simp_all

lemma buildWarning_Inl: "(buildWarning e n = Inl x) = (e = JNullish)"
  by (cases e; cases x) simp_all

lemma built_errors_single:
  "built_errors n [e] = (case buildError e n of Inl x \<Rightarrow> [] | Inr b \<Rightarrow> [b])"
  by (simp split: sum.splits)

lemma push_warnings_eq:
  "push_warnings n vs s =
     (if JNullish \<in> set vs then Rejected TypeError else Fulfilled,
      s\<lparr>warnings := warnings s @ built_warnings n vs\<rparr>)"
proof (induction vs arbitrary: s)
  case Nil
  then show ?case by simp
next
  case (Cons v vs)
  then show ?case by (cases v) auto
qed

lemma push_errors_eq:
  "push_errors n vs s =
     (if JNullish \<in> set vs then Rejected TypeError else Fulfilled,
      s\<lparr>errors := errors s @ built_errors n vs\<rparr>)"
proof (induction vs arbitrary: s)
  case Nil
  then show ?case by simp
next
  case (Cons v vs)
  then show ?case by (cases v) auto
qed

lemma finish_eq:
  "finish n out s =
     (if replayable out
      then (Fulfilled,
            updateAsset n (stored_source out)
              (s\<lparr>warnings := warnings s @ built_warnings n (stored_warnings out),
                 errors := errors s @ built_errors n (stored_errors out)\<rparr>))
      else (Rejected TypeError,
            s\<lparr>warnings := warnings s @ built_warnings n (stored_warnings out),
              errors := errors s @
                (if JNullish \<in> set (stored_warnings out) then []
                 else built_errors n (stored_errors out))\<rparr>))"
  by (simp add: finish_def push_warnings_eq push_errors_eq replayable_def)

lemmas task_defs = task_def finish_eq invoke_def getWorker_def storePromise_def updateAsset_def
  settled_def minimization_def Let_def

lemma task_assets:
  "assets (snd (task c w i s)) =
     (case written c w i of
        None \<Rightarrow> assets s
      | Some src \<Rightarrow> map (\<lambda>(k, a). if k = name i
                   then (k, \<lparr>source = src, info = (info a)\<lparr>minimized := True\<rparr>\<rparr>)
                   else (k, a)) (assets s))"
  by (auto simp: task_defs written_def stored_def split: option.splits sum.splits)

lemma task_errors: "errors (snd (task c w i s)) = errors s @ pushed_errors c w i"
  by (auto simp: task_defs pushed_errors_def stored_def replayable_def buildError_Inl
      split: option.splits sum.splits)

lemma task_warnings: "warnings (snd (task c w i s)) = warnings s @ pushed_warnings c w i"
  by (auto simp: task_defs pushed_warnings_def stored_def
      split: option.splits sum.splits)

lemma task_cache:
  "cache (snd (task c w i s)) =
     (case item_output i of
        Some out \<Rightarrow> cache s
      | None \<Rightarrow>
          (case minimization c w (options_of c i) of
             Inl e \<Rightarrow> cache s
           | Inr r \<Rightarrow> (case code r of
                        None \<Rightarrow> cache s
                      | Some src \<Rightarrow> (cache s)(cacheItem i \<mapsto> stored src r))))"
  by (auto simp: task_defs split: option.splits sum.splits)

lemma task_events:
  "events (snd (task c w i s)) = events s @
     (case (item_output i, w, initializedWorker s) of
        (None, Some n, None) \<Rightarrow> [NewWorker n]
      | _ \<Rightarrow> []) @ trace c w i"
  by (auto simp: task_defs trace_def call_def split: option.splits sum.splits)

lemma task_initializedWorker:
  "initializedWorker (snd (task c w i s)) =
     (case (item_output i, w, initializedWorker s) of
        (None, Some n, None) \<Rightarrow> Some n
      | _ \<Rightarrow> initializedWorker s)"
  by (auto simp: task_defs split: option.splits sum.splits)

lemma task_completion:
  "fst (task c w i s) = (if rejects c w i then Rejected TypeError else Fulfilled)"
  by (auto simp: task_defs rejects_def stored_def buildError_Inl exception_eq
      split: option.splits sum.splits)

lemma run_all_completion:
  "fst (run_all (map (task c w) items) s) =
     (if \<exists>i \<in> set items. rejects c w i then Rejected TypeError else Fulfilled)"
proof (induction items arbitrary: s)
  case Nil
  then show ?case by simp
next
  case (Cons i items)
  have "fst (task c w i s) = (if rejects c w i then Rejected TypeError else Fulfilled)"
    by (rule task_completion)
  with Cons [of "snd (task c w i s)"] show ?case
    by (auto simp: exception_eq split: prod.splits completion.splits)
qed

section \<open>Lemmas on one asset name\<close>

subsection \<open>Lists\<close>

lemma map_of_update:
  "map_of (map (\<lambda>(k, a). if k = n then (k, f a) else (k, a)) xs) m =
     (if m = n then map_option f (map_of xs m) else map_of xs m)"
  by (induction xs) auto

lemma names_update:
  "map fst (map (\<lambda>(k, a). if k = n then (k, f a) else (k, a)) xs) = map fst xs"
  by (induction xs) auto

lemma concat_pick:
  "distinct (map f xs) \<Longrightarrow> x \<in> set xs \<Longrightarrow>
     concat (map (\<lambda>y. if f y = f x then g y else []) xs) = g x"
proof (induction xs)
  case Nil
  then show ?case by simp
next
  case (Cons y ys)
  show ?case
  proof (cases "y = x")
    case True
    with Cons.prems have "f x \<notin> f ` set ys" by simp
    then have "concat (map (\<lambda>y. if f y = f x then g y else []) ys) = []"
      by (induction ys) auto
    with True show ?thesis by simp
  next
    case False
    with Cons.prems have "x \<in> set ys" "f y \<noteq> f x" by auto
    with Cons show ?thesis by simp
  qed
qed

lemma concat_none:
  "n \<notin> f ` set xs \<Longrightarrow> concat (map (\<lambda>y. if f y = n then g y else []) xs) = []"
  by (induction xs) auto

subsection \<open>One task, seen from one asset name\<close>

lemma error_file_buildError: "buildError e n = Inr x \<Longrightarrow> error_file x = n"
  by (cases e) (auto split: if_splits)

lemma error_file_buildWarning: "buildWarning e n = Inr x \<Longrightarrow> error_file x = n"
  by (cases e) auto

lemmas error_file_built = error_file_buildError error_file_buildError [OF sym]
  error_file_buildWarning error_file_buildWarning [OF sym]

lemma built_errors_file: "x \<in> set (built_errors n vs) \<Longrightarrow> error_file x = n"
  by (induction vs) (auto split: sum.splits dest: error_file_built)

lemma built_warnings_file: "x \<in> set (built_warnings n vs) \<Longrightarrow> error_file x = n"
  by (induction vs) (auto split: sum.splits dest: error_file_built)

lemma filter_tagged:
  "\<forall>x \<in> set xs. error_file x = m \<Longrightarrow>
     filter (\<lambda>x. error_file x = n) xs = (if m = n then xs else [])"
  by (induction xs) auto

lemma pushed_errors_file: "\<forall>x \<in> set (pushed_errors c w i). error_file x = name i"
  by (auto simp: pushed_errors_def dest: built_errors_file error_file_built
      split: sum.splits option.splits if_splits)

lemma pushed_warnings_file: "\<forall>x \<in> set (pushed_warnings c w i). error_file x = name i"
  by (auto simp: pushed_warnings_def dest: built_warnings_file
      split: sum.splits option.splits)

lemma task_names: "map fst (assets (snd (task c w i s))) = map fst (assets s)"
  by (auto simp: task_assets split: option.splits prod.splits)

lemma task_asset_at:
  "map_of (assets (snd (task c w i s))) m =
     (if m = name i
      then (case written c w i of
              None \<Rightarrow> map_of (assets s) m
            | Some src \<Rightarrow> map_option
                (\<lambda>a. \<lparr>source = src, info = (info a)\<lparr>minimized := True\<rparr>\<rparr>)
                (map_of (assets s) m))
      else map_of (assets s) m)"
  by (simp add: task_assets map_of_update split: option.splits)

lemma task_errors_at:
  "filter (\<lambda>x. error_file x = n) (errors (snd (task c w i s))) =
     filter (\<lambda>x. error_file x = n) (errors s) @
     (if name i = n then pushed_errors c w i else [])"
  by (simp add: task_errors filter_tagged [OF pushed_errors_file])

lemma task_warnings_at:
  "filter (\<lambda>x. error_file x = n) (warnings (snd (task c w i s))) =
     filter (\<lambda>x. error_file x = n) (warnings s) @
     (if name i = n then pushed_warnings c w i else [])"
  by (simp add: task_warnings filter_tagged [OF pushed_warnings_file])

lemma about_call: "about n (call w options) = (opt_name options = n)"
  by (simp add: call_def split: option.splits)

lemma trace_about:
  "fst (cacheItem i) = name i \<Longrightarrow>
     filter (about n) (trace c w i) = (if name i = n then trace c w i else [])"
  by (simp add: trace_def about_call options_of_def split: option.splits sum.splits)

lemma task_events_at:
  "fst (cacheItem i) = name i \<Longrightarrow>
     filter (about n) (events (snd (task c w i s))) =
       filter (about n) (events s) @ (if name i = n then trace c w i else [])"
  by (simp add: task_events trace_about split: option.splits)

lemma task_cache_at:
  "fst (cacheItem i) = name i \<Longrightarrow> name i \<noteq> n \<Longrightarrow> cache (snd (task c w i s)) (n, e) = cache s (n, e)"
  by (cases "cacheItem i") (auto simp: task_cache split: option.splits sum.splits)

subsection \<open>All tasks, seen from one asset name\<close>

lemma run_names: "map fst (assets (run c w items s)) = map fst (assets s)"
  by (induction items arbitrary: s) (simp_all add: run_Nil run_Cons task_names)

lemma run_asset_other:
  "n \<notin> name ` set items \<Longrightarrow> map_of (assets (run c w items s)) n = map_of (assets s) n"
  by (induction items arbitrary: s) (auto simp: run_Nil run_Cons task_asset_at)

lemma run_errors_other:
  "n \<notin> name ` set items \<Longrightarrow>
     filter (\<lambda>x. error_file x = n) (errors (run c w items s)) =
     filter (\<lambda>x. error_file x = n) (errors s)"
  by (induction items arbitrary: s) (auto simp: run_Nil run_Cons task_errors_at)

lemma run_warnings_other:
  "n \<notin> name ` set items \<Longrightarrow>
     filter (\<lambda>x. error_file x = n) (warnings (run c w items s)) =
     filter (\<lambda>x. error_file x = n) (warnings s)"
  by (induction items arbitrary: s) (auto simp: run_Nil run_Cons task_warnings_at)

lemma run_events_other:
  "\<forall>i \<in> set items. fst (cacheItem i) = name i \<Longrightarrow> n \<notin> name ` set items \<Longrightarrow>
     filter (about n) (events (run c w items s)) = filter (about n) (events s)"
  by (induction items arbitrary: s) (auto simp: run_Nil run_Cons task_events_at)

lemma run_cache_other:
  "\<forall>i \<in> set items. fst (cacheItem i) = name i \<Longrightarrow> n \<notin> name ` set items \<Longrightarrow>
     cache (run c w items s) (n, e) = cache s (n, e)"
  by (induction items arbitrary: s) (auto simp: run_Nil run_Cons task_cache_at)

lemma split_distinct:
  assumes "distinct (map f xs)" "x \<in> set xs"
  obtains pre post where "xs = pre @ x # post" "f x \<notin> f ` set pre" "f x \<notin> f ` set post"
proof -
  from assms(2) obtain pre post where xs: "xs = pre @ x # post"
    by (auto dest: split_list)
  with assms(1) have "f x \<notin> f ` set pre" "f x \<notin> f ` set post"
    by auto
  with xs show thesis by (rule that)
qed

lemma run_at:
  assumes "distinct (map name items)" "i \<in> set items"
  obtains s1 where
    "map_of (assets s1) (name i) = map_of (assets s) (name i)"
    "filter (\<lambda>x. error_file x = name i) (errors s1) = filter (\<lambda>x. error_file x = name i) (errors s)"
    "filter (\<lambda>x. error_file x = name i) (warnings s1) = filter (\<lambda>x. error_file x = name i) (warnings s)"
    "(\<forall>j \<in> set items. fst (cacheItem j) = name j) \<longrightarrow>
       filter (about (name i)) (events s1) = filter (about (name i)) (events s)
       \<and> (\<forall>e. cache s1 (name i, e) = cache s (name i, e))"
    "map_of (assets (run c w items s)) (name i) = map_of (assets (snd (task c w i s1))) (name i)"
    "filter (\<lambda>x. error_file x = name i) (errors (run c w items s)) =
       filter (\<lambda>x. error_file x = name i) (errors (snd (task c w i s1)))"
    "filter (\<lambda>x. error_file x = name i) (warnings (run c w items s)) =
       filter (\<lambda>x. error_file x = name i) (warnings (snd (task c w i s1)))"
    "(\<forall>j \<in> set items. fst (cacheItem j) = name j) \<longrightarrow>
       filter (about (name i)) (events (run c w items s)) =
         filter (about (name i)) (events (snd (task c w i s1)))
       \<and> (\<forall>e. cache (run c w items s) (name i, e) = cache (snd (task c w i s1)) (name i, e))"
proof -
  from assms obtain pre post where
    items: "items = pre @ i # post" and pre: "name i \<notin> name ` set pre"
    and post: "name i \<notin> name ` set post"
    by (rule split_distinct)
  have r: "run c w items s = run c w post (snd (task c w i (run c w pre s)))"
    by (simp add: items run_append run_Cons)
  show thesis
  proof (rule that [of "run c w pre s"])
    show "(\<forall>j \<in> set items. fst (cacheItem j) = name j) \<longrightarrow>
       filter (about (name i)) (events (run c w pre s)) = filter (about (name i)) (events s)
       \<and> (\<forall>e. cache (run c w pre s) (name i, e) = cache s (name i, e))"
      using pre by (simp add: items run_events_other run_cache_other)
    show "(\<forall>j \<in> set items. fst (cacheItem j) = name j) \<longrightarrow>
       filter (about (name i)) (events (run c w items s)) =
         filter (about (name i)) (events (snd (task c w i (run c w pre s))))
       \<and> (\<forall>e. cache (run c w items s) (name i, e) =
                cache (snd (task c w i (run c w pre s))) (name i, e))"
      using post unfolding r by (simp add: items run_events_other run_cache_other)
  qed (simp_all add: r pre post run_asset_other run_errors_other run_warnings_other)
qed

subsection \<open>The items of a pass\<close>

lemma name_lookup: "name (lookup c s na) = fst na"
  by (simp add: lookup_def Let_def)

lemma cacheItem_lookup:
  "cacheItem (lookup c s na) = (fst na, getLazyHashedEtag c (source (snd na)))"
  by (simp add: lookup_def Let_def)

lemma item_output_lookup:
  "item_output (lookup c s na) = cache s (fst na, getLazyHashedEtag c (source (snd na)))"
  by (simp add: lookup_def Let_def)

lemma items_wf: "\<forall>i \<in> set (assetsForMinify c s). fst (cacheItem i) = name i"
  by (simp add: assetsForMinify_def name_lookup cacheItem_lookup)

lemma items_names:
  "map name (assetsForMinify c s) = map fst (filter (survives c) (assets s))"
  by (simp add: assetsForMinify_def name_lookup comp_def)

lemma items_distinct:
  "distinct (map fst (assets s)) \<Longrightarrow> distinct (map name (assetsForMinify c s))"
  by (simp add: items_names distinct_map_filter)

lemma item_member:
  "(n, a) \<in> set (assets s) \<Longrightarrow> survives c (n, a) \<Longrightarrow>
     lookup c s (n, a) \<in> set (assetsForMinify c s)"
  by (simp add: assetsForMinify_def)

lemma item_absent:
  assumes "distinct (map fst (assets s))" "(n, a) \<in> set (assets s)" "\<not> survives c (n, a)"
  shows "n \<notin> name ` set (assetsForMinify c s)"
proof
  assume "n \<in> name ` set (assetsForMinify c s)"
  then have "n \<in> set (map fst (filter (survives c) (assets s)))"
    by (simp add: items_names [symmetric])
  then obtain b where b: "(n, b) \<in> set (assets s)" "survives c (n, b)"
    by auto
  from assms(1) assms(2) b(1) have "a = b"
    by (meson eq_key_imp_eq_value)
  with b(2) assms(3) show False by simp
qed

lemma asset_at: "distinct (map fst (assets s)) \<Longrightarrow> (n, a) \<in> set (assets s) \<Longrightarrow>
  map_of (assets s) n = Some a"
  by simp

subsection \<open>The pass as a run of its tasks\<close>

lemma optimize_fields:
  fixes c k s
  defines "items \<equiv> assetsForMinify c s"
  defines "w \<equiv> numberOfWorkers k items"
  defines "s0 \<equiv> s\<lparr>initializedWorker := None,
                    events := events s @ [ThrottleAll (limit_of w items) (length items)]\<rparr>"
  shows "assets (snd (optimize c k s)) = assets (run c w items s0)"
    and "errors (snd (optimize c k s)) = errors (run c w items s0)"
    and "warnings (snd (optimize c k s)) = warnings (run c w items s0)"
    and "cache (snd (optimize c k s)) = cache (run c w items s0)"
    and "filter (about n) (events (snd (optimize c k s))) = filter (about n) (events (run c w items s0))"
    and "pools (events (snd (optimize c k s))) = pools (events (run c w items s0))"
    and "transforms (events (snd (optimize c k s))) = transforms (events (run c w items s0))"
  unfolding items_def w_def s0_def
  by (simp_all add: optimize_def throttleAll_def Let_def run_def pools_def transforms_def
      split: option.splits prod.splits completion.splits)

section \<open>The pass seen from one asset\<close>

lemma optimize_survivor:
  fixes c k s n a
  defines "w \<equiv> numberOfWorkers k (assetsForMinify c s)"
  defines "i \<equiv> lookup c s (n, a)"
  assumes d: "distinct (map fst (assets s))" and m: "(n, a) \<in> set (assets s)"
    and sv: "survives c (n, a)"
  shows "map_of (assets (snd (optimize c k s))) n =
           Some (case written c w i of
                   None \<Rightarrow> a
                 | Some src \<Rightarrow> \<lparr>source = src, info = (info a)\<lparr>minimized := True\<rparr>\<rparr>)"
    and "filter (\<lambda>x. error_file x = n) (errors (snd (optimize c k s))) =
           filter (\<lambda>x. error_file x = n) (errors s) @ pushed_errors c w i"
    and "filter (\<lambda>x. error_file x = n) (warnings (snd (optimize c k s))) =
           filter (\<lambda>x. error_file x = n) (warnings s) @ pushed_warnings c w i"
    and "filter (about n) (events (snd (optimize c k s))) =
           filter (about n) (events s) @ trace c w i"
    and "cache (snd (optimize c k s)) (n, e) = cache (snd (task c w i s)) (n, e)"
proof -
  let ?items = "assetsForMinify c s"
  let ?s0 = "s\<lparr>initializedWorker := None,
                events := events s @ [ThrottleAll (limit_of w ?items) (length ?items)]\<rparr>"
  have ni: "name i = n" by (simp add: i_def name_lookup)
  have wf: "\<forall>j \<in> set ?items. fst (cacheItem j) = name j" by (rule items_wf)
  have wfi: "fst (cacheItem i) = name i" by (simp add: i_def name_lookup cacheItem_lookup)
  have mem: "i \<in> set ?items" unfolding i_def using m sv by (rule item_member)
  have at: "map_of (assets s) n = Some a" using d m by simp
  from items_distinct [OF d] mem obtain s1 where
    a1: "map_of (assets s1) (name i) = map_of (assets ?s0) (name i)"
    and e1: "filter (\<lambda>x. error_file x = name i) (errors s1) =
             filter (\<lambda>x. error_file x = name i) (errors ?s0)"
    and w1: "filter (\<lambda>x. error_file x = name i) (warnings s1) =
             filter (\<lambda>x. error_file x = name i) (warnings ?s0)"
    and v1: "(\<forall>j \<in> set ?items. fst (cacheItem j) = name j) \<longrightarrow>
       filter (about (name i)) (events s1) = filter (about (name i)) (events ?s0)
       \<and> (\<forall>e. cache s1 (name i, e) = cache ?s0 (name i, e))"
    and a2: "map_of (assets (run c w ?items ?s0)) (name i) =
             map_of (assets (snd (task c w i s1))) (name i)"
    and e2: "filter (\<lambda>x. error_file x = name i) (errors (run c w ?items ?s0)) =
       filter (\<lambda>x. error_file x = name i) (errors (snd (task c w i s1)))"
    and w2: "filter (\<lambda>x. error_file x = name i) (warnings (run c w ?items ?s0)) =
       filter (\<lambda>x. error_file x = name i) (warnings (snd (task c w i s1)))"
    and v2: "(\<forall>j \<in> set ?items. fst (cacheItem j) = name j) \<longrightarrow>
       filter (about (name i)) (events (run c w ?items ?s0)) =
         filter (about (name i)) (events (snd (task c w i s1)))
       \<and> (\<forall>e. cache (run c w ?items ?s0) (name i, e) =
                cache (snd (task c w i s1)) (name i, e))"
    by (rule run_at [where c = c and w = w and s = ?s0])
  show "map_of (assets (snd (optimize c k s))) n =
           Some (case written c w i of
                   None \<Rightarrow> a
                 | Some src \<Rightarrow> \<lparr>source = src, info = (info a)\<lparr>minimized := True\<rparr>\<rparr>)"
    using a1 a2 at
    by (simp add: optimize_fields w_def [symmetric] ni task_asset_at split: option.splits)
  show "filter (\<lambda>x. error_file x = n) (errors (snd (optimize c k s))) =
           filter (\<lambda>x. error_file x = n) (errors s) @ pushed_errors c w i"
    using e1 e2
    by (simp add: optimize_fields w_def [symmetric] ni task_errors_at)
  show "filter (\<lambda>x. error_file x = n) (warnings (snd (optimize c k s))) =
           filter (\<lambda>x. error_file x = n) (warnings s) @ pushed_warnings c w i"
    using w1 w2
    by (simp add: optimize_fields w_def [symmetric] ni task_warnings_at)
  show "filter (about n) (events (snd (optimize c k s))) =
          filter (about n) (events s) @ trace c w i"
    using v1 v2 wf wfi
    by (simp add: optimize_fields w_def [symmetric] ni task_events_at)
  have "cache (snd (task c w i s1)) (n, e) = cache (snd (task c w i s)) (n, e)"
    using v1 wf by (simp add: ni task_cache split: option.splits sum.splits)
  then show "cache (snd (optimize c k s)) (n, e) = cache (snd (task c w i s)) (n, e)"
    using v2 wf by (simp add: optimize_fields w_def [symmetric] ni)
qed

lemma optimize_skipped:
  assumes d: "distinct (map fst (assets s))" and m: "(n, a) \<in> set (assets s)"
    and sv: "\<not> survives c (n, a)"
  shows "map_of (assets (snd (optimize c k s))) n = Some a"
    and "filter (\<lambda>x. error_file x = n) (errors (snd (optimize c k s))) =
           filter (\<lambda>x. error_file x = n) (errors s)"
    and "filter (\<lambda>x. error_file x = n) (warnings (snd (optimize c k s))) =
           filter (\<lambda>x. error_file x = n) (warnings s)"
    and "filter (about n) (events (snd (optimize c k s))) = filter (about n) (events s)"
    and "cache (snd (optimize c k s)) (n, e) = cache s (n, e)"
proof -
  have no: "n \<notin> name ` set (assetsForMinify c s)"
    using d m sv by (rule item_absent)
  have at: "map_of (assets s) n = Some a" using d m by simp
  show "map_of (assets (snd (optimize c k s))) n = Some a"
    using no at by (simp add: optimize_fields run_asset_other)
  show "filter (\<lambda>x. error_file x = n) (errors (snd (optimize c k s))) =
           filter (\<lambda>x. error_file x = n) (errors s)"
    using no by (simp add: optimize_fields run_errors_other)
  show "filter (\<lambda>x. error_file x = n) (warnings (snd (optimize c k s))) =
           filter (\<lambda>x. error_file x = n) (warnings s)"
    using no by (simp add: optimize_fields run_warnings_other)
  show "filter (about n) (events (snd (optimize c k s))) = filter (about n) (events s)"
    using no items_wf [of c s] by (simp add: optimize_fields run_events_other)
  show "cache (snd (optimize c k s)) (n, e) = cache s (n, e)"
    using no items_wf [of c s] by (simp add: optimize_fields run_cache_other)
qed

lemma optimize_names: "map fst (assets (snd (optimize c k s))) = map fst (assets s)"
  by (simp add: optimize_fields run_names)

section \<open>Pools, limits and worker calls of a pass\<close>

lemma pools_append: "pools (xs @ ys) = pools xs @ pools ys"
  by (simp add: pools_def)

lemma limits_append: "limits (xs @ ys) = limits xs @ limits ys"
  by (simp add: limits_def)

lemma transforms_append: "transforms (xs @ ys) = transforms xs @ transforms ys"
  by (simp add: transforms_def)

lemma pools_simps:
  "pools [] = []"
  "pools (NewWorker n # evs) = n # pools evs"
  "pools (Transform options # evs) = pools evs"
  "pools (Minify options # evs) = pools evs"
  "pools (StorePromise key entry # evs) = pools evs"
  "pools (UpdateAsset m # evs) = pools evs"
  "pools (ThrottleAll l j # evs) = pools evs"
  "pools (EndWorker # evs) = pools evs"
  by (simp_all add: pools_def)

lemma limits_simps:
  "limits [] = []"
  "limits (NewWorker n # evs) = limits evs"
  "limits (Transform options # evs) = limits evs"
  "limits (Minify options # evs) = limits evs"
  "limits (StorePromise key entry # evs) = limits evs"
  "limits (UpdateAsset m # evs) = limits evs"
  "limits (ThrottleAll l j # evs) = l # limits evs"
  "limits (EndWorker # evs) = limits evs"
  by (simp_all add: limits_def)

lemma transforms_simps:
  "transforms [] = []"
  "transforms (NewWorker n # evs) = transforms evs"
  "transforms (Transform options # evs) = options # transforms evs"
  "transforms (Minify options # evs) = transforms evs"
  "transforms (StorePromise key entry # evs) = transforms evs"
  "transforms (UpdateAsset m # evs) = transforms evs"
  "transforms (ThrottleAll l j # evs) = transforms evs"
  "transforms (EndWorker # evs) = transforms evs"
  by (simp_all add: transforms_def)

lemma pools_trace: "pools (trace c w i) = []"
  by (simp add: trace_def call_def pools_simps split: option.splits sum.splits)

lemma limits_trace: "limits (trace c w i) = []"
  by (simp add: trace_def call_def limits_simps split: option.splits sum.splits)

lemma transforms_trace: "transforms (trace c None i) = []"
  by (simp add: trace_def call_def transforms_simps split: option.splits sum.splits)

lemma pending: "(numberOfAssets items > 0) = (\<exists>i \<in> set items. item_output i = None)"
  by (simp add: numberOfAssets_def filter_empty_conv)

lemma task_pools:
  "pools (events (snd (task c w i s))) = pools (events s) @
     (case (item_output i, w, initializedWorker s) of
        (None, Some n, None) \<Rightarrow> [n]
      | _ \<Rightarrow> [])"
  by (simp add: task_events pools_append pools_trace pools_simps split: option.splits)

lemma run_pools:
  "pools (events (run c w items s)) = pools (events s) @
     (case (w, initializedWorker s) of
        (Some n, None) \<Rightarrow> if \<exists>i \<in> set items. item_output i = None then [n] else []
      | _ \<Rightarrow> [])"
proof (induction items arbitrary: s)
  case Nil
  then show ?case by (simp add: run_Nil split: option.splits)
next
  case (Cons i items)
  show ?case
    by (auto simp: run_Cons Cons.IH task_pools task_initializedWorker split: option.splits)
qed

lemma run_limits: "limits (events (run c w items s)) = limits (events s)"
  by (induction items arbitrary: s)
    (simp_all add: run_Nil run_Cons task_events limits_append limits_trace limits_simps
      split: option.splits)

lemma run_transforms: "transforms (events (run c None items s)) = transforms (events s)"
  by (induction items arbitrary: s)
    (simp_all add: run_Nil run_Cons task_events transforms_append transforms_trace
      transforms_simps split: option.splits)

lemma optimize_pools:
  "pools (events (snd (optimize c k s))) = pools (events s) @
     (if k > 0 \<and> numberOfAssets (assetsForMinify c s) > 0
      then [min (numberOfAssets (assetsForMinify c s)) k] else [])"
  by (simp add: optimize_fields run_pools pools_append pools_simps numberOfWorkers_def pending)

lemma optimize_limits:
  "limits (events (snd (optimize c k s))) = limits (events s) @
     (if assetsForMinify c s = [] then []
      else [if k > 0 \<and> numberOfAssets (assetsForMinify c s) > 0
            then min (numberOfAssets (assetsForMinify c s)) k
            else int (length (assetsForMinify c s))])"
proof -
  let ?items = "assetsForMinify c s"
  let ?w = "numberOfWorkers k ?items"
  let ?s0 = "s\<lparr>initializedWorker := None,
                events := events s @ [ThrottleAll (limit_of ?w ?items) (length ?items)]\<rparr>"
  have "limits (events (snd (optimize c k s))) =
      (if ?items = [] then limits (events s) else limits (events (run c ?w ?items ?s0)))"
    by (simp add: optimize_def throttleAll_def Let_def run_def limits_append limits_simps
        split: option.splits prod.splits completion.splits)
  then show ?thesis
    by (simp add: run_limits limits_append limits_simps limit_of_def numberOfWorkers_def)
qed

lemma optimize_transforms:
  "k \<le> 0 \<Longrightarrow> transforms (events (snd (optimize c k s))) = transforms (events s)"
  by (simp add: optimize_fields numberOfWorkers_def run_transforms transforms_append
      transforms_simps)

section \<open>Workers and the concurrency limit\<close>

lemmas example_defs = example_collaborators_def example_minify_def example_state_def
  only_c_def page_def pages_def five_pages_def ten_pages_def cached_e_def
  nullish_throw_def cached_null_def nullish_cached_def

lemmas optimize_defs = optimize_def assetsForMinify_def survives_def lookup_def
  numberOfWorkers_def numberOfAssets_def limit_of_def throttleAll_def
  task_def finish_def invoke_def getWorker_def storePromise_def updateAsset_def
  options_of_def stored_def Let_def

lemma apply_plugin_disabled:
  "getAvailableNumberOfCores cpus (constructor_parallel p) \<le> 0 \<Longrightarrow>
     pools (events (snd (apply_plugin c cpus p s))) = pools (events s)
     \<and> transforms (events (snd (apply_plugin c cpus p s))) = transforms (events s)"
  by (simp add: apply_plugin_def optimize_pools optimize_transforms)

text \<open>
  Claim C4, as amended. The constructor replaces an absent \<open>parallel\<close> by \<open>true\<close>, so
  \<open>true\<close> and an absent value both give the number of CPUs minus one; a number \<open>n\<close> gives
  the smaller of \<open>n\<close> and that; \<open>false\<close> and every number that is not positive give a
  value that is not positive. Whenever the value is not positive, a pass constructs no
  pool and sends nothing to a worker. The counterexample below shows an absent value
  on four CPUs constructing a pool.
\<close>

theorem parallel_option_workers:
  "getAvailableNumberOfCores cpus (constructor_parallel (Boolean True)) = cpus_length cpus - 1
   \<and> getAvailableNumberOfCores cpus (constructor_parallel Undefined) = cpus_length cpus - 1
   \<and> getAvailableNumberOfCores cpus (constructor_parallel (Number n)) =
        min n (cpus_length cpus - 1)
   \<and> getAvailableNumberOfCores cpus (constructor_parallel (Boolean False)) \<le> 0
   \<and> (n \<le> 0 \<longrightarrow> getAvailableNumberOfCores cpus (constructor_parallel (Number n)) \<le> 0)
   \<and> (getAvailableNumberOfCores cpus (constructor_parallel p) \<le> 0 \<longrightarrow>
        pools (events (snd (apply_plugin c cpus p s))) = pools (events s)
        \<and> transforms (events (snd (apply_plugin c cpus p s))) = transforms (events s))"
proof (intro conjI impI)
  show "pools (events (snd (apply_plugin c cpus p s))) = pools (events s)"
    if "getAvailableNumberOfCores cpus (constructor_parallel p) \<le> 0"
    using apply_plugin_disabled [OF that] by simp
  show "transforms (events (snd (apply_plugin c cpus p s))) = transforms (events s)"
    if "getAvailableNumberOfCores cpus (constructor_parallel p) \<le> 0"
    using apply_plugin_disabled [OF that] by simp
qed (simp_all add: getAvailableNumberOfCores_def constructor_parallel_def)

theorem parallel_option_workers_witness:
  "getAvailableNumberOfCores (Some 4) (constructor_parallel (Boolean True)) = 3
   \<and> getAvailableNumberOfCores (Some 4) (constructor_parallel Undefined) = 3
   \<and> getAvailableNumberOfCores (Some 4) (constructor_parallel (Number 0)) = 0
   \<and> getAvailableNumberOfCores (Some 4) (constructor_parallel (Boolean False)) \<le> 0
   \<and> pools (events (snd (apply_plugin example_collaborators (Some 4) (Number 0) example_state))) = []
   \<and> transforms (events (snd (apply_plugin example_collaborators (Some 4) (Number 0) example_state))) = []"
  using parallel_option_workers [of "Some 4" 0 "Number 0" example_collaborators example_state]
  by (simp add: cpus_length_def getAvailableNumberOfCores_def constructor_parallel_def
      example_state_def pools_simps transforms_simps)

theorem parallel_absent_counterexample:
  "getAvailableNumberOfCores (Some 4) (constructor_parallel Undefined) = 3
   \<and> pools (events (snd (apply_plugin example_collaborators (Some 4) Undefined only_c))) = [1]
   \<and> pools (events (snd (apply_plugin example_collaborators (Some 4) Undefined only_c)))
       \<noteq> pools (events only_c)
   \<and> transforms (events (snd (apply_plugin example_collaborators (Some 4) Undefined only_c))) =
       [\<lparr>opt_name = ''c.html'', opt_input = ''<p> c''\<rparr>]"
  by (simp add: apply_plugin_def getAvailableNumberOfCores_def constructor_parallel_def
      cpus_length_def optimize_defs example_defs pools_simps transforms_simps)



lemma numberOfAssets_misses:
  "numberOfAssets (assetsForMinify c s) =
     int (length (filter (\<lambda>na. survives c na
                            \<and> cache s (fst na, getLazyHashedEtag c (source (snd na))) = None)
                 (assets s)))"
  by (simp add: numberOfAssets_def assetsForMinify_def filter_map comp_def
      item_output_lookup conj_commute)

text \<open>
  Claim C3. The pending count is the number of surviving assets whose cache lookup
  missed. With a positive number of cores the number of workers is the smaller of the
  pending count and the cores, and a pool constructed in the pass has that size. With
  \<open>parallel: true\<close> on four CPUs and ten surviving assets, none cached, the pool has 3
  workers and the limit is 3.
\<close>

theorem worker_count:
  "numberOfAssets (assetsForMinify c s) =
     int (length (filter (\<lambda>na. survives c na
                            \<and> cache s (fst na, getLazyHashedEtag c (source (snd na))) = None)
                 (assets s)))
   \<and> (0 < k \<longrightarrow>
        numberOfWorkers k (assetsForMinify c s) =
          Some (min (numberOfAssets (assetsForMinify c s)) k)
        \<and> pools (events (snd (optimize c k s))) = pools (events s) @
            (if 0 < numberOfAssets (assetsForMinify c s)
             then [min (numberOfAssets (assetsForMinify c s)) k] else []))
   \<and> (length (assetsForMinify c s) = 10 \<and> numberOfAssets (assetsForMinify c s) = 10 \<longrightarrow>
        getAvailableNumberOfCores (Some 4) (constructor_parallel (Boolean True)) = 3
        \<and> pools (events (snd (apply_plugin c (Some 4) (Boolean True) s))) = pools (events s) @ [3]
        \<and> limits (events (snd (apply_plugin c (Some 4) (Boolean True) s))) = limits (events s) @ [3])"
proof (intro conjI impI)
  show "numberOfAssets (assetsForMinify c s) =
     int (length (filter (\<lambda>na. survives c na
                            \<and> cache s (fst na, getLazyHashedEtag c (source (snd na))) = None)
                 (assets s)))"
    by (rule numberOfAssets_misses)
  show "numberOfWorkers k (assetsForMinify c s) =
          Some (min (numberOfAssets (assetsForMinify c s)) k)" if "0 < k"
    using that by (simp add: numberOfWorkers_def)
  show "pools (events (snd (optimize c k s))) = pools (events s) @
            (if 0 < numberOfAssets (assetsForMinify c s)
             then [min (numberOfAssets (assetsForMinify c s)) k] else [])" if "0 < k"
    using that by (simp add: optimize_pools)
  have three: "getAvailableNumberOfCores (Some 4) (constructor_parallel (Boolean True)) = 3"
    by (simp add: getAvailableNumberOfCores_def constructor_parallel_def cpus_length_def)
  then show "getAvailableNumberOfCores (Some 4) (constructor_parallel (Boolean True)) = 3" .
  show "pools (events (snd (apply_plugin c (Some 4) (Boolean True) s))) = pools (events s) @ [3]"
    if "length (assetsForMinify c s) = 10 \<and> numberOfAssets (assetsForMinify c s) = 10"
    using that by (simp add: apply_plugin_def three optimize_pools)
  show "limits (events (snd (apply_plugin c (Some 4) (Boolean True) s))) = limits (events s) @ [3]"
    if "length (assetsForMinify c s) = 10 \<and> numberOfAssets (assetsForMinify c s) = 10"
  proof -
    from that have "assetsForMinify c s \<noteq> []" by auto
    with that show ?thesis
      by (simp add: apply_plugin_def three optimize_limits)
  qed
qed

theorem worker_count_witness:
  "length (assetsForMinify example_collaborators ten_pages) = 10
   \<and> numberOfAssets (assetsForMinify example_collaborators ten_pages) = 10
   \<and> (0::int) < 3
   \<and> numberOfWorkers 3 (assetsForMinify example_collaborators ten_pages) = Some 3
   \<and> pools (events (snd (optimize example_collaborators 3 ten_pages))) = [3]
   \<and> pools (events (snd (apply_plugin example_collaborators (Some 4) (Boolean True) ten_pages))) = [3]
   \<and> limits (events (snd (apply_plugin example_collaborators (Some 4) (Boolean True) ten_pages))) = [3]"
  using worker_count [of example_collaborators ten_pages 3]
  by (simp add: assetsForMinify_def numberOfAssets_def survives_def lookup_def Let_def
      example_defs pools_simps limits_simps)

section \<open>Diagnostics\<close>

lemma task_errors_new:
  "\<forall>x \<in> set (drop (length (errors s)) (errors (snd (task c w i s)))). error_file x = name i"
  using pushed_errors_file [of c w i] by (simp add: task_errors)

lemma task_warnings_new:
  "\<forall>x \<in> set (drop (length (warnings s)) (warnings (snd (task c w i s)))). error_file x = name i"
  using pushed_warnings_file [of c w i] by (simp add: task_warnings)

lemma buildError_context:
  "buildError e n = Inr x \<Longrightarrow>
     prefix (n @ '' from Html Minimizer plugin'' @ newline) (message x)"
  by (cases e) (auto simp: prefix_def split: if_splits)

lemma buildError_builds: "e \<noteq> JNullish \<Longrightarrow> \<exists>x. buildError e n = Inr x"
  by (cases e) simp_all

lemma buildWarning_builds: "v \<noteq> JNullish \<Longrightarrow> \<exists>y. buildWarning v n = Inr y"
  by (cases v) simp_all

text \<open>
  Claim C9. Whatever \<open>buildError\<close> or \<open>buildWarning\<close> builds carries the asset name in
  its \<open>file\<close> field, and they build for every value but \<open>null\<close> and \<open>undefined\<close>; so
  every error and warning a task pushes carries the name of the task's asset. The message
  of a built error always starts with the asset name and the words "from Html Minimizer
  plugin"; for a thrown string or an object without a stack the thrown message follows,
  and for an object with a stack the message and then the stack follow, so the stack ends
  the message.
\<close>

theorem diagnostics_tagged_and_wrapped:
  "(buildError e n = Inr x \<longrightarrow>
      error_file x = n
      \<and> prefix (n @ '' from Html Minimizer plugin'' @ newline) (message x))
   \<and> (e \<noteq> JNullish \<longrightarrow> (\<exists>x. buildError e n = Inr x))
   \<and> (buildWarning v n = Inr y \<longrightarrow> error_file y = n)
   \<and> (v \<noteq> JNullish \<longrightarrow> (\<exists>y. buildWarning v n = Inr y))
   \<and> (\<forall>x \<in> set (drop (length (errors s)) (errors (snd (task c w i s)))).
        error_file x = name i)
   \<and> (\<forall>x \<in> set (drop (length (warnings s)) (warnings (snd (task c w i s)))).
        error_file x = name i)
   \<and> buildError (JString t) n =
        Inr \<lparr>error_name = ''Error'',
             message = n @ '' from Html Minimizer plugin'' @ newline @ t,
             error_file = n, hideStack = False\<rparr>
   \<and> (\<not> truthy st \<longrightarrow>
        buildError (JObject b msg st str) n =
          Inr \<lparr>error_name = ''Error'',
               message = n @ '' from Html Minimizer plugin'' @ newline
                 @ (case msg of Some m \<Rightarrow> m | None \<Rightarrow> ''undefined''),
               error_file = n, hideStack = False\<rparr>)
   \<and> (st = Some tr \<and> tr \<noteq> [] \<longrightarrow>
        buildError (JObject b msg st str) n =
          Inr \<lparr>error_name = ''Error'',
               message = n @ '' from Html Minimizer plugin'' @ newline
                 @ (case msg of Some m \<Rightarrow> m | None \<Rightarrow> []) @ newline @ tr,
               error_file = n, hideStack = False\<rparr>
        \<and> suffix (newline @ tr)
            (n @ '' from Html Minimizer plugin'' @ newline
               @ (case msg of Some m \<Rightarrow> m | None \<Rightarrow> []) @ newline @ tr))"
proof (intro conjI impI)
  show "error_file x = n" if "buildError e n = Inr x"
    using that by (rule error_file_buildError)
  show "prefix (n @ '' from Html Minimizer plugin'' @ newline) (message x)"
    if "buildError e n = Inr x"
    using that by (rule buildError_context)
  show "\<exists>x. buildError e n = Inr x" if "e \<noteq> JNullish"
    using that by (rule buildError_builds)
  show "error_file y = n" if "buildWarning v n = Inr y"
    using that by (rule error_file_buildWarning)
  show "\<exists>y. buildWarning v n = Inr y" if "v \<noteq> JNullish"
    using that by (rule buildWarning_builds)
  show "\<forall>x \<in> set (drop (length (errors s)) (errors (snd (task c w i s)))). error_file x = name i"
    by (rule task_errors_new)
  show "\<forall>x \<in> set (drop (length (warnings s)) (warnings (snd (task c w i s)))).
      error_file x = name i"
    by (rule task_warnings_new)
  show "buildError (JString t) n =
        Inr \<lparr>error_name = ''Error'',
             message = n @ '' from Html Minimizer plugin'' @ newline @ t,
             error_file = n, hideStack = False\<rparr>"
    by simp
  show "buildError (JObject b msg st str) n =
          Inr \<lparr>error_name = ''Error'',
               message = n @ '' from Html Minimizer plugin'' @ newline
                 @ (case msg of Some m \<Rightarrow> m | None \<Rightarrow> ''undefined''),
               error_file = n, hideStack = False\<rparr>"
    if "\<not> truthy st"
    using that by simp
  show "buildError (JObject b msg st str) n =
          Inr \<lparr>error_name = ''Error'',
               message = n @ '' from Html Minimizer plugin'' @ newline
                 @ (case msg of Some m \<Rightarrow> m | None \<Rightarrow> []) @ newline @ tr,
               error_file = n, hideStack = False\<rparr>"
    if "st = Some tr \<and> tr \<noteq> []"
    using that by (simp add: truthy_def)
  show "suffix (newline @ tr)
            (n @ '' from Html Minimizer plugin'' @ newline
               @ (case msg of Some m \<Rightarrow> m | None \<Rightarrow> []) @ newline @ tr)"
    by (simp add: suffix_def)
qed

theorem diagnostics_tagged_and_wrapped_witness:
  "buildError (JString ''bad markup'') ''b.html'' =
     Inr \<lparr>error_name = ''Error'',
          message = ''b.html from Html Minimizer plugin'' @ newline @ ''bad markup'',
          error_file = ''b.html'', hideStack = False\<rparr>
   \<and> buildWarning (JString ''odd attribute'') ''a.html'' =
     Inr \<lparr>error_name = ''Warning'', message = ''odd attribute'',
          error_file = ''a.html'', hideStack = True\<rparr>
   \<and> JString ''bad markup'' \<noteq> JNullish
   \<and> drop (length (errors example_state))
        (errors (snd (task example_collaborators None
           (lookup example_collaborators example_state (''b.html'', page ''<b> ''))
           example_state)))
      = [\<lparr>error_name = ''Error'',
          message = ''b.html from Html Minimizer plugin'' @ newline @ ''bad markup'',
          error_file = ''b.html'', hideStack = False\<rparr>]
   \<and> \<not> truthy None
   \<and> buildError (JObject False (Some ''boom'') None ''[object Object]'') ''b.html'' =
        Inr \<lparr>error_name = ''Error'',
             message = ''b.html from Html Minimizer plugin'' @ newline @ ''boom'',
             error_file = ''b.html'', hideStack = False\<rparr>
   \<and> buildError (JObject True (Some ''boom'') (Some ''Error: boom at x.js:1'') ''Error: boom'')
        ''b.html'' =
        Inr \<lparr>error_name = ''Error'',
             message = ''b.html from Html Minimizer plugin'' @ newline @ ''boom'' @ newline
               @ ''Error: boom at x.js:1'',
             error_file = ''b.html'', hideStack = False\<rparr>
   \<and> suffix (newline @ ''Error: boom at x.js:1'')
        (''b.html from Html Minimizer plugin'' @ newline @ ''boom'' @ newline
           @ ''Error: boom at x.js:1'')"
  using diagnostics_tagged_and_wrapped [where e = "JString ''bad markup''" and n = "''b.html''"
      and v = "JString ''odd attribute''" and s = example_state and c = example_collaborators
      and w = None
      and i = "lookup example_collaborators example_state (''b.html'', page ''<b> '')"
      and t = "''x''" and st = None and b = False and msg = "Some ''boom''"
      and str = "''[object Object]''" and tr = "''Error: boom at x.js:1''"]
    diagnostics_tagged_and_wrapped [where e = "JString ''bad markup''" and n = "''b.html''"
      and v = "JString ''odd attribute''" and s = example_state and c = example_collaborators
      and w = None
      and i = "lookup example_collaborators example_state (''b.html'', page ''<b> '')"
      and t = "''x''" and st = "Some ''Error: boom at x.js:1''" and b = True
      and msg = "Some ''boom''" and str = "''Error: boom''"
      and tr = "''Error: boom at x.js:1''"]
  by (simp add: truthy_def lookup_def task_def invoke_def options_of_def Let_def
      example_collaborators_def example_minify_def example_state_def page_def)

section \<open>Skipped assets\<close>

lemma survives_iff: "survives c (n, a) = (\<not> minimized (info a) \<and> matchObject c n)"
  by (simp add: survives_def)

text \<open>
  Claim C7. An asset that is marked minimized or that the rule does not match is not in
  \<open>assetsForMinify\<close>, so no task is scheduled for it; after the pass its entry is the one
  it had, the asset table has the same keys in the same order, and the pass logs no
  event, pushes no diagnostic and writes no cache entry under its name.
\<close>

theorem skipped_asset_untouched:
  assumes "distinct (map fst (assets s))" and "(n, a) \<in> set (assets s)"
    and "minimized (info a) \<or> \<not> matchObject c n"
  shows "n \<notin> name ` set (assetsForMinify c s)
    \<and> map_of (assets (snd (optimize c k s))) n = Some a
    \<and> (n, a) \<in> set (assets (snd (optimize c k s)))
    \<and> map fst (assets (snd (optimize c k s))) = map fst (assets s)
    \<and> filter (about n) (events (snd (optimize c k s))) = filter (about n) (events s)
    \<and> filter (\<lambda>x. error_file x = n) (errors (snd (optimize c k s))) =
         filter (\<lambda>x. error_file x = n) (errors s)
    \<and> filter (\<lambda>x. error_file x = n) (warnings (snd (optimize c k s))) =
         filter (\<lambda>x. error_file x = n) (warnings s)
    \<and> (\<forall>t. cache (snd (optimize c k s)) (n, t) = cache s (n, t))"
proof -
  from assms(3) have sk: "\<not> survives c (n, a)"
    by (auto simp: survives_iff)
  have "map_of (assets (snd (optimize c k s))) n = Some a"
    using assms(1) assms(2) sk by (rule optimize_skipped)
  moreover from this have "(n, a) \<in> set (assets (snd (optimize c k s)))"
    by (rule map_of_SomeD)
  moreover have "n \<notin> name ` set (assetsForMinify c s)"
    using assms(1) assms(2) sk by (rule item_absent)
  ultimately show ?thesis
    using optimize_skipped [OF assms(1) assms(2) sk, of k]
    by (simp add: optimize_names)
qed

theorem skipped_asset_untouched_witness:
  "distinct (map fst (assets example_state))
   \<and> (''d.html'', \<lparr>source = Text ''<p>d</p>'', info = \<lparr>minimized = True\<rparr>\<rparr>)
        \<in> set (assets example_state)
   \<and> minimized (info \<lparr>source = Text ''<p>d</p>'', info = \<lparr>minimized = True\<rparr>\<rparr>)
   \<and> (''main.js'', page ''let x'') \<in> set (assets example_state)
   \<and> \<not> matchObject example_collaborators ''main.js''
   \<and> map_of (assets (snd (optimize example_collaborators 2 example_state))) ''d.html'' =
        Some \<lparr>source = Text ''<p>d</p>'', info = \<lparr>minimized = True\<rparr>\<rparr>
   \<and> map_of (assets (snd (optimize example_collaborators 2 example_state))) ''main.js'' =
        Some (page ''let x'')
   \<and> filter (about ''d.html'') (events (snd (optimize example_collaborators 2 example_state))) = []
   \<and> filter (about ''main.js'') (events (snd (optimize example_collaborators 2 example_state))) = []"
proof -
  have h1: "distinct (map fst (assets example_state))"
    by (simp add: example_state_def)
  have h2: "(''d.html'', \<lparr>source = Text ''<p>d</p>'', info = \<lparr>minimized = True\<rparr>\<rparr>)
        \<in> set (assets example_state)"
    by (simp add: example_state_def)
  have h3: "minimized (info \<lparr>source = Text ''<p>d</p>'', info = \<lparr>minimized = True\<rparr>\<rparr>)
      \<or> \<not> matchObject example_collaborators ''d.html''"
    by simp
  have g2: "(''main.js'', page ''let x'') \<in> set (assets example_state)"
    by (simp add: example_state_def)
  have g3: "minimized (info (page ''let x'')) \<or> \<not> matchObject example_collaborators ''main.js''"
    by (simp add: example_collaborators_def)
  show ?thesis
    using h1 h2 g2 skipped_asset_untouched [OF h1 h2 h3, of 2]
      skipped_asset_untouched [OF h1 g2 g3, of 2]
    by (simp add: example_state_def example_collaborators_def)
qed

lemma stores_append: "stores (xs @ ys) = stores xs @ stores ys"
  by (simp add: stores_def)

lemma stores_simps:
  "stores [] = []"
  "stores (NewWorker m # evs) = stores evs"
  "stores (Transform options # evs) = stores evs"
  "stores (Minify options # evs) = stores evs"
  "stores (StorePromise key entry # evs) = key # stores evs"
  "stores (UpdateAsset u # evs) = stores evs"
  "stores (ThrottleAll l j # evs) = stores evs"
  "stores (EndWorker # evs) = stores evs"
  by (simp_all add: stores_def)

lemma stores_about: "filter (\<lambda>key. fst key = n) (stores evs) = stores (filter (about n) evs)"
proof (induction evs)
  case Nil
  then show ?case by (simp add: stores_simps)
next
  case (Cons ev evs)
  then show ?case by (cases ev) (simp_all add: stores_simps)
qed

lemma stores_call: "stores (call w options # evs) = stores evs"
  by (simp add: call_def stores_simps split: option.splits)

lemma stores_trace: "length (stores (trace c w i)) \<le> 1"
  by (simp add: trace_def stores_simps stores_call split: option.splits sum.splits)

section \<open>Cache writes\<close>

text \<open>
  Claim C10. For a surviving asset the events of the pass about it are, in order: the
  call alone when the lookup missed and the call threw, or resolved without a code that
  \<open>RawSource\<close> accepts, and then no cache entry of the asset changes; the call, one
  \<open>storePromise\<close> and then the update of the asset when the lookup missed and the call
  resolved with such a code, the update being left out when a listed diagnostic is \<open>null\<close>
  or \<open>undefined\<close>; the update alone, under the same condition, when the lookup hit. In
  every case the pass logs at most one cache write under the asset's name.
\<close>

theorem cache_store_on_success_only:
  fixes c k s n a
  defines "w \<equiv> numberOfWorkers k (assetsForMinify c s)"
  defines "key \<equiv> (n, getLazyHashedEtag c (source a))"
  defines "options \<equiv> options_of c (lookup c s (n, a))"
  assumes "distinct (map fst (assets s))" and "(n, a) \<in> set (assets s)"
    and "survives c (n, a)"
  shows "(cache s key = None \<and> minimization c w options = Inl e \<longrightarrow>
           filter (about n) (events (snd (optimize c k s))) =
             filter (about n) (events s) @ [call w options]
           \<and> (\<forall>t. cache (snd (optimize c k s)) (n, t) = cache s (n, t)))
    \<and> (cache s key = None \<and> minimization c w options = Inr r \<and> code r = None \<longrightarrow>
           filter (about n) (events (snd (optimize c k s))) =
             filter (about n) (events s) @ [call w options]
           \<and> (\<forall>t. cache (snd (optimize c k s)) (n, t) = cache s (n, t)))
    \<and> (cache s key = None \<and> minimization c w options = Inr r \<and> code r = Some src \<longrightarrow>
           filter (about n) (events (snd (optimize c k s))) =
             filter (about n) (events s)
               @ [call w options, StorePromise key (stored src r)]
               @ (if replayable (stored src r) then [UpdateAsset n] else [])
           \<and> cache (snd (optimize c k s)) key = Some (stored src r))
    \<and> (cache s key = Some out \<longrightarrow>
           filter (about n) (events (snd (optimize c k s))) =
             filter (about n) (events s) @ (if replayable out then [UpdateAsset n] else [])
           \<and> (\<forall>t. cache (snd (optimize c k s)) (n, t) = cache s (n, t)))
    \<and> length (filter (\<lambda>key. fst key = n) (stores (events (snd (optimize c k s)))))
         \<le> length (filter (\<lambda>key. fst key = n) (stores (events s))) + 1"
proof -
  let ?i = "lookup c s (n, a)"
  note sv = optimize_survivor [OF assms(4) assms(5) assms(6), of k, folded w_def]
  have out: "item_output ?i = cache s key"
    by (simp add: key_def item_output_lookup)
  have ci: "cacheItem ?i = key"
    by (simp add: key_def cacheItem_lookup)
  have ev: "filter (about n) (events (snd (optimize c k s))) =
              filter (about n) (events s) @ trace c w ?i"
    by (rule sv(4))
  have ca: "cache (snd (optimize c k s)) (n, t) = cache (snd (task c w ?i s)) (n, t)" for t
    by (rule sv(5))
  have "filter (about n) (events (snd (optimize c k s))) =
             filter (about n) (events s) @ [call w options]
           \<and> (\<forall>t. cache (snd (optimize c k s)) (n, t) = cache s (n, t))"
    if "cache s key = None \<and> minimization c w options = Inl e"
    using that by (simp add: ev ca trace_def task_cache out options_def)
  moreover have "filter (about n) (events (snd (optimize c k s))) =
             filter (about n) (events s) @ [call w options]
           \<and> (\<forall>t. cache (snd (optimize c k s)) (n, t) = cache s (n, t))"
    if "cache s key = None \<and> minimization c w options = Inr r \<and> code r = None"
    using that by (simp add: ev ca trace_def task_cache out options_def)
  moreover have "filter (about n) (events (snd (optimize c k s))) =
             filter (about n) (events s)
               @ [call w options, StorePromise key (stored src r)]
               @ (if replayable (stored src r) then [UpdateAsset n] else [])
           \<and> cache (snd (optimize c k s)) key = Some (stored src r)"
    if "cache s key = None \<and> minimization c w options = Inr r \<and> code r = Some src"
  proof -
    have "cache (snd (optimize c k s)) key = cache (snd (task c w ?i s)) key"
      unfolding key_def by (rule ca)
    with that show ?thesis
      by (simp add: ev trace_def task_cache out ci options_def name_lookup)
  qed
  moreover have "filter (about n) (events (snd (optimize c k s))) =
             filter (about n) (events s) @ (if replayable out then [UpdateAsset n] else [])
           \<and> (\<forall>t. cache (snd (optimize c k s)) (n, t) = cache s (n, t))"
    if "cache s key = Some out"
    using that by (simp add: ev ca trace_def task_cache out name_lookup)
  moreover have "length (filter (\<lambda>key. fst key = n) (stores (events (snd (optimize c k s)))))
         \<le> length (filter (\<lambda>key. fst key = n) (stores (events s))) + 1"
    using stores_trace [of c w ?i] by (simp add: stores_about ev stores_append)
  ultimately show ?thesis by blast
qed

theorem cache_store_on_success_only_witness:
  "distinct (map fst (assets example_state))
   \<and> (''b.html'', page ''<b> '') \<in> set (assets example_state)
   \<and> survives example_collaborators (''b.html'', page ''<b> '')
   \<and> cache example_state (''b.html'', ''<b> '') = None
   \<and> minimization example_collaborators (Some 2)
        \<lparr>opt_name = ''b.html'', opt_input = ''<b> ''\<rparr> = Inl (JString ''bad markup'')
   \<and> filter (about ''b.html'') (events (snd (optimize example_collaborators 2 example_state))) =
        [Transform \<lparr>opt_name = ''b.html'', opt_input = ''<b> ''\<rparr>]
   \<and> cache (snd (optimize example_collaborators 2 example_state)) (''b.html'', ''<b> '') = None
   \<and> (''a.html'', page ''<p> hi </p>'') \<in> set (assets example_state)
   \<and> survives example_collaborators (''a.html'', page ''<p> hi </p>'')
   \<and> cache example_state (''a.html'', ''<p> hi </p>'') = None
   \<and> filter (about ''a.html'') (events (snd (optimize example_collaborators 2 example_state))) =
        [Transform \<lparr>opt_name = ''a.html'', opt_input = ''<p> hi </p>''\<rparr>,
         StorePromise (''a.html'', ''<p> hi </p>'')
           \<lparr>stored_source = Text ''<p>hi</p>'', stored_errors = [],
            stored_warnings = [JString ''odd attribute'']\<rparr>,
         UpdateAsset ''a.html'']
   \<and> cache (snd (optimize example_collaborators 2 example_state))
        (''a.html'', ''<p> hi </p>'') =
        Some \<lparr>stored_source = Text ''<p>hi</p>'', stored_errors = [],
              stored_warnings = [JString ''odd attribute'']\<rparr>
   \<and> (''e.html'', page ''<p> e </p>'') \<in> set (assets example_state)
   \<and> survives example_collaborators (''e.html'', page ''<p> e </p>'')
   \<and> cache example_state (''e.html'', ''<p> e </p>'') = Some cached_e
   \<and> filter (about ''e.html'') (events (snd (optimize example_collaborators 2 example_state))) =
        [UpdateAsset ''e.html'']
   \<and> cache (snd (optimize example_collaborators 2 example_state))
        (''e.html'', ''<p> e </p>'') = Some cached_e"
proof -
  have h1: "distinct (map fst (assets example_state))"
    by (simp add: example_state_def)
  have b2: "(''b.html'', page ''<b> '') \<in> set (assets example_state)"
    by (simp add: example_state_def)
  have b3: "survives example_collaborators (''b.html'', page ''<b> '')"
    by (simp add: survives_def example_collaborators_def page_def)
  have a2: "(''a.html'', page ''<p> hi </p>'') \<in> set (assets example_state)"
    by (simp add: example_state_def)
  have a3: "survives example_collaborators (''a.html'', page ''<p> hi </p>'')"
    by (simp add: survives_def example_collaborators_def page_def)
  have e2: "(''e.html'', page ''<p> e </p>'') \<in> set (assets example_state)"
    by (simp add: example_state_def)
  have e3: "survives example_collaborators (''e.html'', page ''<p> e </p>'')"
    by (simp add: survives_def example_collaborators_def page_def)
  have w: "numberOfWorkers 2 (assetsForMinify example_collaborators example_state) = Some 2"
    by (simp add: numberOfWorkers_def numberOfAssets_def assetsForMinify_def survives_def
        lookup_def Let_def example_state_def example_collaborators_def page_def)
  note tb = cache_store_on_success_only [OF h1 b2 b3, where k = 2
      and e = "JString ''bad markup''", unfolded w]
  note ta = cache_store_on_success_only [OF h1 a2 a3, where k = 2
      and r = "\<lparr>code = Some (Text ''<p>hi</p>''),
                result_warnings = [JString ''odd attribute''], result_errors = []\<rparr>"
      and src = "Text ''<p>hi</p>''", unfolded w]
  note te = cache_store_on_success_only [OF h1 e2 e3, where k = 2 and out = cached_e,
      unfolded w]
  show ?thesis
    using h1 b2 b3 a2 a3 e2 e3 tb ta te
    by (simp add: minimization_def options_of_def lookup_def Let_def call_def stored_def
        replayable_def cached_e_def
        example_state_def example_collaborators_def example_minify_def page_def)
qed

section \<open>Independence of the tasks\<close>

lemma survives_with_outcome: "survives (with_outcome c options r) = survives c"
  by (rule ext) (simp add: survives_def with_outcome_def)

lemma lookup_with_outcome: "lookup (with_outcome c options r) s = lookup c s"
  by (rule ext) (simp add: lookup_def with_outcome_def)

lemma assetsForMinify_with_outcome:
  "assetsForMinify (with_outcome c options r) s = assetsForMinify c s"
  by (simp add: assetsForMinify_def survives_with_outcome lookup_with_outcome)

lemma options_of_with_outcome: "options_of (with_outcome c options r) i = options_of c i"
  by (simp add: options_of_def with_outcome_def split: content.splits)

lemma minimization_with_outcome:
  "opt_name options \<noteq> name i \<Longrightarrow>
     minimization (with_outcome c options r) w (options_of c i) =
       minimization c w (options_of c i)"
  by (auto simp: minimization_def with_outcome_def options_of_def split: option.splits)

lemma settled_with_outcome:
  "opt_name options \<noteq> name i \<Longrightarrow> settled (with_outcome c options r) w i = settled c w i"
  by (simp add: settled_def options_of_with_outcome minimization_with_outcome
      split: option.splits)

lemma trace_with_outcome:
  "opt_name options \<noteq> name i \<Longrightarrow> trace (with_outcome c options r) w i = trace c w i"
  by (simp add: trace_def options_of_with_outcome minimization_with_outcome
      split: option.splits sum.splits)

lemma task_cache_with_outcome:
  "opt_name options \<noteq> name i \<Longrightarrow>
     cache (snd (task (with_outcome c options r) w i s)) = cache (snd (task c w i s))"
  by (simp add: task_cache options_of_with_outcome minimization_with_outcome
      split: option.splits)

lemma siblings_unaffected:
  assumes d: "distinct (map fst (assets s))" and m: "(m, b) \<in> set (assets s)"
    and ne: "opt_name options \<noteq> m"
  shows "map_of (assets (snd (optimize (with_outcome c options r) k s))) m =
           map_of (assets (snd (optimize c k s))) m
    \<and> filter (\<lambda>x. error_file x = m) (errors (snd (optimize (with_outcome c options r) k s))) =
        filter (\<lambda>x. error_file x = m) (errors (snd (optimize c k s)))
    \<and> filter (\<lambda>x. error_file x = m)
          (warnings (snd (optimize (with_outcome c options r) k s))) =
        filter (\<lambda>x. error_file x = m) (warnings (snd (optimize c k s)))
    \<and> filter (about m) (events (snd (optimize (with_outcome c options r) k s))) =
        filter (about m) (events (snd (optimize c k s)))
    \<and> (\<forall>t. cache (snd (optimize (with_outcome c options r) k s)) (m, t) =
             cache (snd (optimize c k s)) (m, t))"
proof (cases "survives c (m, b)")
  case True
  then have sv': "survives (with_outcome c options r) (m, b)"
    by (simp add: survives_with_outcome)
  have ni: "opt_name options \<noteq> name (lookup c s (m, b))"
    using ne by (simp add: name_lookup)
  show ?thesis
    using optimize_survivor [OF d m True, of k] optimize_survivor [OF d m sv', of k] ni
    by (simp add: assetsForMinify_with_outcome lookup_with_outcome settled_with_outcome
        trace_with_outcome task_cache_with_outcome written_def pushed_errors_def
        pushed_warnings_def)
next
  case False
  then have sv': "\<not> survives (with_outcome c options r) (m, b)"
    by (simp add: survives_with_outcome)
  show ?thesis
    using optimize_skipped [OF d m False, of k] optimize_skipped [OF d m sv', of k]
    by simp
qed

lemma sublist_thrown:
  assumes "e = JString t \<or> e = JObject b (Some t) st str" and "buildError e n = Inr x"
  shows "sublist t (message x)"
  using assms(1)
proof (rule disjE)
  assume "e = JString t"
  with assms(2) have "message x = (n @ '' from Html Minimizer plugin'' @ newline) @ t @ []"
    by auto
  then show ?thesis unfolding sublist_def by blast
next
  assume e: "e = JObject b (Some t) st str"
  show ?thesis
  proof (cases "truthy st")
    case True
    with e assms(2) have "message x =
      (n @ '' from Html Minimizer plugin'' @ newline) @ t
        @ (newline @ (case st of Some x \<Rightarrow> x | None \<Rightarrow> []))"
      by auto
    then show ?thesis unfolding sublist_def by blast
  next
    case False
    with e assms(2) have "message x =
      (n @ '' from Html Minimizer plugin'' @ newline) @ t @ []"
      by auto
    then show ?thesis unfolding sublist_def by blast
  qed
qed

lemma built_warnings_all:
  "JNullish \<notin> set vs \<Longrightarrow> map Inr (built_warnings n vs) = map (\<lambda>v. buildWarning v n) vs"
  by (induction vs) (auto simp: buildWarning_Inl split: sum.splits)

lemma built_errors_all:
  "JNullish \<notin> set vs \<Longrightarrow> map Inr (built_errors n vs) = map (\<lambda>v. buildError v n) vs"
  by (induction vs) (auto simp: buildError_Inl split: sum.splits)

lemma optimize_completion:
  "fst (optimize c k s) =
     (if \<exists>i \<in> set (assetsForMinify c s).
           rejects c (numberOfWorkers k (assetsForMinify c s)) i
      then Rejected TypeError else Fulfilled)"
proof -
  let ?items = "assetsForMinify c s"
  let ?w = "numberOfWorkers k ?items"
  let ?s0 = "s\<lparr>initializedWorker := None,
                events := events s @ [ThrottleAll (limit_of ?w ?items) (length ?items)]\<rparr>"
  have "fst (optimize c k s) =
      (if ?items = [] then Fulfilled else fst (run_all (map (task c ?w) ?items) ?s0))"
    by (simp add: optimize_def throttleAll_def Let_def
        split: option.splits prod.splits completion.splits)
  then show ?thesis
    by (simp add: run_all_completion)
qed

section \<open>Cached assets and thrown values\<close>

lemma settled_hit: "item_output i = Some out \<Longrightarrow> settled c w i = Inr (Some out)"
  by (simp add: settled_def)

lemma settled_throw:
  "item_output i = None \<Longrightarrow> minimization c w (options_of c i) = Inl e \<Longrightarrow>
     settled c w i = Inl e"
  by (simp add: settled_def)


text \<open>What \<open>buildWarning\<close> builds, case by case: the name is "Warning", the stack is
  hidden, and the message is the string itself, the \<open>message\<close> of an \<open>Error\<close> (empty when
  undefined), or the \<open>message\<close> of another object and its \<open>toString()\<close> when it has none.\<close>

lemma buildWarning_built:
  "buildWarning (JString t) n =
     Inr \<lparr>error_name = ''Warning'', message = t, error_file = n, hideStack = True\<rparr>"
  "buildWarning (JObject True msg st str) n =
     Inr \<lparr>error_name = ''Warning'', message = (case msg of Some m \<Rightarrow> m | None \<Rightarrow> []),
          error_file = n, hideStack = True\<rparr>"
  "buildWarning (JObject False (Some m) st str) n =
     Inr \<lparr>error_name = ''Warning'', message = m, error_file = n, hideStack = True\<rparr>"
  "buildWarning (JObject False None st str) n =
     Inr \<lparr>error_name = ''Warning'', message = str, error_file = n, hideStack = True\<rparr>"
  "buildWarning JNullish n = Inl TypeError"
  by simp_all

text \<open>
  What holds of a cache hit. The only event the pass can log about the asset is the
  update of the asset: neither \<open>minify\<close> nor a worker's \<open>transform\<close> is called for it and
  nothing is stored. When the stored lists hold no \<open>null\<close> or \<open>undefined\<close>, the asset gets
  the stored source and \<open>minimized: true\<close>, and the errors and warnings pushed under its
  name are, in order, exactly what \<open>buildError\<close> and \<open>buildWarning\<close> build from the
  stored ones.
\<close>

lemma cache_hit_replayed:
  assumes "distinct (map fst (assets s))" and "(n, a) \<in> set (assets s)"
    and "survives c (n, a)"
    and "cache s (n, getLazyHashedEtag c (source a)) = Some out"
  shows "filter (about n) (events (snd (optimize c k s))) =
           filter (about n) (events s) @ (if replayable out then [UpdateAsset n] else [])"
    and "replayable out \<Longrightarrow>
          map_of (assets (snd (optimize c k s))) n =
            Some \<lparr>source = stored_source out, info = (info a)\<lparr>minimized := True\<rparr>\<rparr>
          \<and> (\<exists>es. filter (\<lambda>x. error_file x = n) (errors (snd (optimize c k s))) =
                  filter (\<lambda>x. error_file x = n) (errors s) @ es
                \<and> map Inr es = map (\<lambda>e. buildError e n) (stored_errors out))
          \<and> (\<exists>ws. filter (\<lambda>x. error_file x = n) (warnings (snd (optimize c k s))) =
                  filter (\<lambda>x. error_file x = n) (warnings s) @ ws
                \<and> map Inr ws = map (\<lambda>v. buildWarning v n) (stored_warnings out))"
proof -
  let ?w = "numberOfWorkers k (assetsForMinify c s)"
  let ?i = "lookup c s (n, a)"
  note sv = optimize_survivor [OF assms(1) assms(2) assms(3), of k]
  have hit: "item_output ?i = Some out"
    using assms(4) by (simp add: item_output_lookup)
  then have st: "settled c ?w ?i = Inr (Some out)" by (rule settled_hit)
  show "filter (about n) (events (snd (optimize c k s))) =
           filter (about n) (events s) @ (if replayable out then [UpdateAsset n] else [])"
    using sv(4) hit by (simp add: trace_def name_lookup)
  show "map_of (assets (snd (optimize c k s))) n =
            Some \<lparr>source = stored_source out, info = (info a)\<lparr>minimized := True\<rparr>\<rparr>
          \<and> (\<exists>es. filter (\<lambda>x. error_file x = n) (errors (snd (optimize c k s))) =
                  filter (\<lambda>x. error_file x = n) (errors s) @ es
                \<and> map Inr es = map (\<lambda>e. buildError e n) (stored_errors out))
          \<and> (\<exists>ws. filter (\<lambda>x. error_file x = n) (warnings (snd (optimize c k s))) =
                  filter (\<lambda>x. error_file x = n) (warnings s) @ ws
                \<and> map Inr ws = map (\<lambda>v. buildWarning v n) (stored_warnings out))"
    if r: "replayable out"
  proof (intro conjI)
    show "map_of (assets (snd (optimize c k s))) n =
            Some \<lparr>source = stored_source out, info = (info a)\<lparr>minimized := True\<rparr>\<rparr>"
      using sv(1) r by (simp add: written_def st)
    have "filter (\<lambda>x. error_file x = n) (errors (snd (optimize c k s))) =
        filter (\<lambda>x. error_file x = n) (errors s) @ built_errors n (stored_errors out)"
      using sv(2) r by (simp add: pushed_errors_def st name_lookup replayable_def)
    moreover have "map Inr (built_errors n (stored_errors out)) =
        map (\<lambda>e. buildError e n) (stored_errors out)"
      using r by (simp add: built_errors_all replayable_def)
    ultimately show "\<exists>es. filter (\<lambda>x. error_file x = n) (errors (snd (optimize c k s))) =
                  filter (\<lambda>x. error_file x = n) (errors s) @ es
                \<and> map Inr es = map (\<lambda>e. buildError e n) (stored_errors out)"
      by blast
    have "filter (\<lambda>x. error_file x = n) (warnings (snd (optimize c k s))) =
        filter (\<lambda>x. error_file x = n) (warnings s) @ built_warnings n (stored_warnings out)"
      using sv(3) by (simp add: pushed_warnings_def st name_lookup)
    moreover have "map Inr (built_warnings n (stored_warnings out)) =
        map (\<lambda>v. buildWarning v n) (stored_warnings out)"
      using r by (simp add: built_warnings_all replayable_def)
    ultimately show "\<exists>ws. filter (\<lambda>x. error_file x = n) (warnings (snd (optimize c k s))) =
                  filter (\<lambda>x. error_file x = n) (warnings s) @ ws
                \<and> map Inr ws = map (\<lambda>v. buildWarning v n) (stored_warnings out)"
      by blast
  qed
qed

text \<open>
  Claim C1 fails on a stored output with a \<open>null\<close> warning. Here the cache holds, for
  e.html, the warnings "cached warning" and \<open>null\<close> and one error. The pass pushes the
  first warning, \<open>buildWarning\<close> raises on the second, the stored error is not pushed, the
  asset keeps its source and is not marked minimized, no update is logged, and the pass
  rejects.
\<close>

theorem cached_nullish_warning_raises:
  "cache nullish_cached (''e.html'', ''<p> e </p>'') = Some cached_null
   \<and> stored_warnings cached_null = [JString ''cached warning'', JNullish]
   \<and> buildWarning JNullish ''e.html'' = Inl TypeError
   \<and> fst (optimize example_collaborators 0 nullish_cached) = Rejected TypeError
   \<and> warnings (snd (optimize example_collaborators 0 nullish_cached)) =
       [\<lparr>error_name = ''Warning'', message = ''cached warning'', error_file = ''e.html'',
         hideStack = True\<rparr>]
   \<and> errors (snd (optimize example_collaborators 0 nullish_cached)) = []
   \<and> map_of (assets (snd (optimize example_collaborators 0 nullish_cached))) ''e.html'' =
       Some \<lparr>source = Text ''<p> e </p>'', info = \<lparr>minimized = False\<rparr>\<rparr>
   \<and> events (snd (optimize example_collaborators 0 nullish_cached)) = [ThrottleAll 1 1]"
  by (simp add: optimize_defs example_defs)

text \<open>
  Claim C5 fails on a thrown \<open>undefined\<close>. Here the minimization call for n.html throws
  \<open>undefined\<close>: \<open>buildError\<close> raises in the \<open>catch\<close> clause, so the task pushes no error
  and rejects, and the pass rejects with no error under the asset's name.
\<close>

theorem thrown_nullish_escapes:
  "minimization example_collaborators None \<lparr>opt_name = ''n.html'', opt_input = ''<i> ''\<rparr> =
     Inl JNullish
   \<and> buildError JNullish ''n.html'' = Inl TypeError
   \<and> fst (task example_collaborators None
        (lookup example_collaborators nullish_throw (''n.html'', page ''<i> ''))
        nullish_throw) = Rejected TypeError
   \<and> errors (snd (task example_collaborators None
        (lookup example_collaborators nullish_throw (''n.html'', page ''<i> ''))
        nullish_throw)) = []
   \<and> fst (optimize example_collaborators 0 nullish_throw) = Rejected TypeError
   \<and> errors (snd (optimize example_collaborators 0 nullish_throw)) = []
   \<and> filter (about ''n.html'') (events (snd (optimize example_collaborators 0 nullish_throw))) =
       [Minify \<lparr>opt_name = ''n.html'', opt_input = ''<i> ''\<rparr>]
   \<and> map_of (assets (snd (optimize example_collaborators 0 nullish_throw))) ''n.html'' =
       Some \<lparr>source = Text ''<i> '', info = \<lparr>minimized = False\<rparr>\<rparr>"
  by (simp add: minimization_def optimize_defs example_defs)

section \<open>Failed minimization\<close>

text \<open>
  What holds of a call that throws a value other than \<open>null\<close> and \<open>undefined\<close>. The
  pass pushes exactly one error under the asset's name, the one \<open>buildError\<close> builds,
  whose message contains the thrown string or the thrown object's message; it pushes no
  warning under that name, leaves the asset's entry as it was (not minimized), logs only
  the call about it, and the task does not reject. Every other asset ends with the same
  entry, errors, warnings and events whatever the failing call settles to, and every
  surviving asset's own events are logged.
\<close>

lemma failed_call_isolated:
  fixes c k s n a
  defines "w \<equiv> numberOfWorkers k (assetsForMinify c s)"
  defines "options \<equiv> options_of c (lookup c s (n, a))"
  assumes "distinct (map fst (assets s))" and "(n, a) \<in> set (assets s)"
    and "survives c (n, a)"
    and "cache s (n, getLazyHashedEtag c (source a)) = None"
    and "minimization c w options = Inl e"
    and "e \<noteq> JNullish"
  shows "(\<exists>x. buildError e n = Inr x
          \<and> filter (\<lambda>x. error_file x = n) (errors (snd (optimize c k s))) =
              filter (\<lambda>x. error_file x = n) (errors s) @ [x]
          \<and> (e = JString t \<or> e = JObject b (Some t) st str \<longrightarrow> sublist t (message x)))
    \<and> filter (\<lambda>x. error_file x = n) (warnings (snd (optimize c k s))) =
           filter (\<lambda>x. error_file x = n) (warnings s)
    \<and> map_of (assets (snd (optimize c k s))) n = Some a
    \<and> \<not> minimized (info a)
    \<and> filter (about n) (events (snd (optimize c k s))) =
           filter (about n) (events s) @ [call w options]
    \<and> \<not> rejects c w (lookup c s (n, a))
    \<and> (\<forall>m b' r. (m, b') \<in> set (assets s) \<and> m \<noteq> n \<longrightarrow>
          map_of (assets (snd (optimize (with_outcome c options r) k s))) m =
            map_of (assets (snd (optimize c k s))) m
          \<and> filter (\<lambda>x. error_file x = m)
                (errors (snd (optimize (with_outcome c options r) k s))) =
              filter (\<lambda>x. error_file x = m) (errors (snd (optimize c k s)))
          \<and> filter (\<lambda>x. error_file x = m)
                (warnings (snd (optimize (with_outcome c options r) k s))) =
              filter (\<lambda>x. error_file x = m) (warnings (snd (optimize c k s)))
          \<and> filter (about m) (events (snd (optimize (with_outcome c options r) k s))) =
              filter (about m) (events (snd (optimize c k s))))
    \<and> (\<forall>m b'. (m, b') \<in> set (assets s) \<and> survives c (m, b') \<longrightarrow>
          filter (about m) (events (snd (optimize c k s))) =
            filter (about m) (events s) @ trace c w (lookup c s (m, b')))"
proof -
  let ?i = "lookup c s (n, a)"
  note sv = optimize_survivor [OF assms(3) assms(4) assms(5), of k, folded w_def]
  have miss: "item_output ?i = None"
    using assms(6) by (simp add: item_output_lookup)
  have st: "settled c w ?i = Inl e"
    using miss assms(7) unfolding options_def by (rule settled_throw)
  have tr: "trace c w ?i = [call w options]"
    using miss assms(7) by (simp add: trace_def options_def)
  have on: "opt_name options = n"
    by (simp add: options_def options_of_def name_lookup)
  from assms(8) obtain x where x: "buildError e n = Inr x"
    using buildError_builds by blast
  have "filter (\<lambda>x. error_file x = n) (errors (snd (optimize c k s))) =
           filter (\<lambda>x. error_file x = n) (errors s) @ [x]"
    using sv(2) x by (simp add: pushed_errors_def st name_lookup)
  moreover have "e = JString t \<or> e = JObject b (Some t) st str \<longrightarrow> sublist t (message x)"
    using sublist_thrown x by blast
  ultimately have 1: "\<exists>x. buildError e n = Inr x
          \<and> filter (\<lambda>x. error_file x = n) (errors (snd (optimize c k s))) =
              filter (\<lambda>x. error_file x = n) (errors s) @ [x]
          \<and> (e = JString t \<or> e = JObject b (Some t) st str \<longrightarrow> sublist t (message x))"
    using x by blast
  have 3: "filter (\<lambda>x. error_file x = n) (warnings (snd (optimize c k s))) =
           filter (\<lambda>x. error_file x = n) (warnings s)"
    using sv(3) by (simp add: pushed_warnings_def st)
  have 4: "map_of (assets (snd (optimize c k s))) n = Some a"
    using sv(1) by (simp add: written_def st)
  have 5: "\<not> minimized (info a)"
    using assms(5) by (simp add: survives_iff)
  have 6: "filter (about n) (events (snd (optimize c k s))) =
           filter (about n) (events s) @ [call w options]"
    using sv(4) by (simp add: tr)
  have six: "\<not> rejects c w ?i"
    using assms(8) by (simp add: rejects_def st)
  have 7: "map_of (assets (snd (optimize (with_outcome c options r) k s))) m =
            map_of (assets (snd (optimize c k s))) m
          \<and> filter (\<lambda>x. error_file x = m)
                (errors (snd (optimize (with_outcome c options r) k s))) =
              filter (\<lambda>x. error_file x = m) (errors (snd (optimize c k s)))
          \<and> filter (\<lambda>x. error_file x = m)
                (warnings (snd (optimize (with_outcome c options r) k s))) =
              filter (\<lambda>x. error_file x = m) (warnings (snd (optimize c k s)))
          \<and> filter (about m) (events (snd (optimize (with_outcome c options r) k s))) =
              filter (about m) (events (snd (optimize c k s)))"
    if "(m, b') \<in> set (assets s) \<and> m \<noteq> n" for m b' r
  proof -
    from that have "(m, b') \<in> set (assets s)" and "opt_name options \<noteq> m"
      by (auto simp: on)
    with assms(3) show ?thesis
      using siblings_unaffected [of s m b' options c r k] by simp
  qed
  have 8: "filter (about m) (events (snd (optimize c k s))) =
            filter (about m) (events s) @ trace c w (lookup c s (m, b'))"
    if "(m, b') \<in> set (assets s) \<and> survives c (m, b')" for m b'
    using that optimize_survivor(4) [OF assms(3), of m b' c k] by (simp add: w_def)
  from 1 3 4 5 6 six 7 8 show ?thesis by blast
qed




section \<open>The worker pool\<close>

lemma run_hits:
  "\<forall>i \<in> set hits. item_output i \<noteq> None \<Longrightarrow>
     events (run c w hits s) = events s @ concat (map (trace c w) hits)
     \<and> initializedWorker (run c w hits s) = initializedWorker s"
proof (induction hits arbitrary: s)
  case Nil
  then show ?case by (simp add: run_Nil)
next
  case (Cons i hits)
  then obtain out where "item_output i = Some out" by auto
  with Cons show ?case
    by (simp add: run_Cons task_events task_initializedWorker)
qed

lemma run_grows: "\<exists>post. events (run c w items s) = events s @ post"
proof (induction items arbitrary: s)
  case Nil
  then show ?case by (simp add: run_Nil)
next
  case (Cons i items)
  from Cons [of "snd (task c w i s)"] obtain post where
    "events (run c w items (snd (task c w i s))) = events (snd (task c w i s)) @ post" ..
  then show ?case by (simp add: run_Cons task_events)
qed

lemma run_no_pool:
  assumes "initializedWorker s \<noteq> None"
  shows "\<exists>post. events (run c w items s) = events s @ post \<and> pools post = []"
proof -
  obtain post where post: "events (run c w items s) = events s @ post"
    using run_grows by blast
  have "pools (events (run c w items s)) = pools (events s)"
    using assms by (auto simp: run_pools split: option.splits)
  with post have "pools post = []" by (simp add: pools_append)
  with post show ?thesis by blast
qed

lemma run_keeps_worker:
  "initializedWorker s \<noteq> None \<Longrightarrow> initializedWorker (run c w items s) \<noteq> None"
  by (induction items arbitrary: s)
    (auto simp: run_Nil run_Cons task_initializedWorker split: option.splits)

lemma transforms_hit: "item_output i \<noteq> None \<Longrightarrow> transforms (trace c w i) = []"
  by (auto simp: trace_def transforms_simps)

lemma run_hits_transforms:
  "\<forall>i \<in> set hits. item_output i \<noteq> None \<Longrightarrow>
     transforms (events (run c w hits s)) = transforms (events s)"
proof -
  assume h: "\<forall>i \<in> set hits. item_output i \<noteq> None"
  then have "transforms (concat (map (trace c w) hits)) = []"
    by (induction hits) (simp_all add: transforms_simps transforms_append transforms_hit)
  with run_hits [OF h] show ?thesis by (simp add: transforms_append)
qed

lemma trace_miss_pool:
  "item_output m = None \<Longrightarrow>
     \<exists>post. trace c (Some n) m = Transform (options_of c m) # post \<and> pools post = []"
  by (simp add: trace_def call_def pools_simps split: sum.splits option.splits)

lemma optimize_first_miss:
  fixes c k s
  defines "items \<equiv> assetsForMinify c s"
  defines "w \<equiv> numberOfWorkers k items"
  assumes k: "0 < k" and items: "items = hits @ m # rest"
    and hits: "\<forall>i \<in> set hits. item_output i \<noteq> None" and miss: "item_output m = None"
  shows "\<exists>post. events (snd (optimize c k s)) =
           events s @ ThrottleAll (limit_of w items) (length items)
             # concat (map (trace c w) hits)
             @ NewWorker (min (numberOfAssets items) k) # Transform (options_of c m) # post
         \<and> pools post = []"
proof -
  let ?n = "min (numberOfAssets items) k"
  let ?s0 = "s\<lparr>initializedWorker := None,
               events := events s @ [ThrottleAll (limit_of w items) (length items)]\<rparr>"
  let ?s1 = "run c w hits ?s0"
  let ?s2 = "snd (task c w m ?s1)"
  let ?s3 = "run c w rest ?s2"
  have w: "w = Some ?n" using k by (simp add: w_def numberOfWorkers_def)
  have ne: "items \<noteq> []" using items by simp
  have e1: "events ?s1 = events ?s0 @ concat (map (trace c w) hits)"
    and i1: "initializedWorker ?s1 = None"
    using run_hits [OF hits, of c w ?s0] by simp_all
  obtain p2 where p2: "trace c w m = Transform (options_of c m) # p2" "pools p2 = []"
    using trace_miss_pool [OF miss] unfolding w by blast
  have e2: "events ?s2 = events ?s1 @ NewWorker ?n # Transform (options_of c m) # p2"
    using miss i1 p2(1) by (simp add: task_events w)
  have i2: "initializedWorker ?s2 \<noteq> None"
    using miss i1 by (simp add: task_initializedWorker w)
  obtain p3 where p3: "events ?s3 = events ?s2 @ p3" "pools p3 = []"
    using run_no_pool [OF i2] by blast
  have i3: "initializedWorker ?s3 \<noteq> None"
    using i2 by (rule run_keeps_worker)
  have r: "run c w items ?s0 = ?s3"
    by (simp add: items run_append run_Cons)
  have "\<exists>tail. events (snd (optimize c k s)) = events ?s3 @ tail \<and> pools tail = []"
  proof (cases "fst (run_all (map (task c w) items) ?s0)")
    case Fulfilled
    then have "snd (optimize c k s) = ?s3\<lparr>events := events ?s3 @ [EndWorker]\<rparr>"
      using ne i3 r
      by (auto simp: optimize_def Let_def throttleAll_def run_def items_def w_def
          split: option.splits prod.splits)
    then have "events (snd (optimize c k s)) = events ?s3 @ [EndWorker]" by simp
    then show ?thesis by (simp add: pools_simps)
  next
    case (Rejected x)
    then have "snd (optimize c k s) = ?s3"
      using ne r
      by (auto simp: optimize_def Let_def throttleAll_def run_def items_def w_def
          split: option.splits prod.splits)
    then show ?thesis by (simp add: pools_simps)
  qed
  then obtain tail where tail: "events (snd (optimize c k s)) = events ?s3 @ tail"
    "pools tail = []"
    by blast
  then have "events (snd (optimize c k s)) =
      events s @ ThrottleAll (limit_of w items) (length items)
        # concat (map (trace c w) hits)
        @ NewWorker ?n # Transform (options_of c m) # (p2 @ p3 @ tail)"
    by (simp add: p3 e2 e1)
  moreover have "pools (p2 @ p3 @ tail) = []"
    by (simp add: pools_append pools_simps p2 p3 tail)
  ultimately show ?thesis by blast
qed

lemma optimize_all_hits:
  assumes "\<forall>i \<in> set (assetsForMinify c s). item_output i \<noteq> None"
  shows "pools (events (snd (optimize c k s))) = pools (events s)"
    and "transforms (events (snd (optimize c k s))) = transforms (events s)"
proof -
  from assms have "\<not> 0 < numberOfAssets (assetsForMinify c s)"
    by (simp add: pending)
  then show "pools (events (snd (optimize c k s))) = pools (events s)"
    by (simp add: optimize_pools)
  show "transforms (events (snd (optimize c k s))) = transforms (events s)"
    using run_hits_transforms [OF assms]
    by (simp add: optimize_fields transforms_append transforms_simps)
qed

text \<open>
  Claim C8. A pass constructs at most one pool. When every surviving asset is a cache hit
  it constructs none and calls no worker. When the accessor is defined and the items are
  some cache hits followed by a first miss, the log of the pass is: the call of the
  Throttle, the updates of the hits, then the construction of the pool directly before
  the \<open>transform\<close> call of the first miss, and no construction after it.
\<close>

theorem pool_constructed_lazily_once:
  fixes c k s
  defines "items \<equiv> assetsForMinify c s"
  defines "w \<equiv> numberOfWorkers k items"
  shows "length (pools (events (snd (optimize c k s)))) \<le> length (pools (events s)) + 1
    \<and> ((\<forall>i \<in> set items. item_output i \<noteq> None) \<longrightarrow>
          pools (events (snd (optimize c k s))) = pools (events s)
          \<and> transforms (events (snd (optimize c k s))) = transforms (events s))
    \<and> (0 < k \<and> items = hits @ m # rest
          \<and> (\<forall>i \<in> set hits. item_output i \<noteq> None) \<and> item_output m = None \<longrightarrow>
          (\<exists>post. events (snd (optimize c k s)) =
             events s @ ThrottleAll (limit_of w items) (length items)
               # concat (map (trace c w) hits)
               @ NewWorker (min (numberOfAssets items) k) # Transform (options_of c m) # post
           \<and> pools post = []))"
proof (intro conjI impI)
  show "length (pools (events (snd (optimize c k s)))) \<le> length (pools (events s)) + 1"
    by (simp add: optimize_pools)
  show "pools (events (snd (optimize c k s))) = pools (events s)"
    if "\<forall>i \<in> set items. item_output i \<noteq> None"
    using that unfolding items_def by (rule optimize_all_hits)
  show "transforms (events (snd (optimize c k s))) = transforms (events s)"
    if "\<forall>i \<in> set items. item_output i \<noteq> None"
    using that unfolding items_def by (rule optimize_all_hits)
  show "\<exists>post. events (snd (optimize c k s)) =
             events s @ ThrottleAll (limit_of w items) (length items)
               # concat (map (trace c w) hits)
               @ NewWorker (min (numberOfAssets items) k) # Transform (options_of c m) # post
           \<and> pools post = []"
    if "0 < k \<and> items = hits @ m # rest
          \<and> (\<forall>i \<in> set hits. item_output i \<noteq> None) \<and> item_output m = None"
  proof -
    from that have a: "0 < k" and b: "assetsForMinify c s = hits @ m # rest"
      and h: "\<forall>i \<in> set hits. item_output i \<noteq> None" and d: "item_output m = None"
      by (simp_all add: items_def)
    show ?thesis
      unfolding items_def w_def by (rule optimize_first_miss [OF a b h d])
  qed
qed

theorem pool_constructed_lazily_once_witness:
  "(0::int) < 2
   \<and> assetsForMinify example_collaborators example_state =
       [lookup example_collaborators example_state (''e.html'', page ''<p> e </p>'')]
       @ lookup example_collaborators example_state (''a.html'', page ''<p> hi </p>'')
       # [lookup example_collaborators example_state (''b.html'', page ''<b> ''),
          lookup example_collaborators example_state (''c.html'', page ''<p> c'')]
   \<and> item_output (lookup example_collaborators example_state
        (''e.html'', page ''<p> e </p>'')) = Some cached_e
   \<and> item_output (lookup example_collaborators example_state
        (''a.html'', page ''<p> hi </p>'')) = None
   \<and> length (pools (events (snd (optimize example_collaborators 2 example_state)))) \<le> 1
   \<and> (\<exists>post. events (snd (optimize example_collaborators 2 example_state)) =
         [ThrottleAll 2 4, UpdateAsset ''e.html'', NewWorker 2,
          Transform \<lparr>opt_name = ''a.html'', opt_input = ''<p> hi </p>''\<rparr>] @ post
        \<and> pools post = [])
   \<and> assetsForMinify example_collaborators
        (example_state\<lparr>assets := [(''e.html'', page ''<p> e </p>'')]\<rparr>) =
       [lookup example_collaborators example_state (''e.html'', page ''<p> e </p>'')]
   \<and> pools (events (snd (optimize example_collaborators 2
        (example_state\<lparr>assets := [(''e.html'', page ''<p> e </p>'')]\<rparr>)))) = []"
proof -
  let ?e = "lookup example_collaborators example_state (''e.html'', page ''<p> e </p>'')"
  let ?a = "lookup example_collaborators example_state (''a.html'', page ''<p> hi </p>'')"
  let ?rest = "[lookup example_collaborators example_state (''b.html'', page ''<b> ''),
          lookup example_collaborators example_state (''c.html'', page ''<p> c'')]"
  let ?s1 = "example_state\<lparr>assets := [(''e.html'', page ''<p> e </p>'')]\<rparr>"
  have items: "assetsForMinify example_collaborators example_state = [?e] @ ?a # ?rest"
    by (simp add: assetsForMinify_def survives_def example_state_def
        example_collaborators_def page_def)
  have he: "item_output ?e = Some cached_e"
    by (simp add: lookup_def Let_def example_state_def example_collaborators_def page_def)
  have ha: "item_output ?a = None"
    by (simp add: lookup_def Let_def example_state_def example_collaborators_def page_def)
  have hits: "\<forall>i \<in> set [?e]. item_output i \<noteq> None"
    using he by simp
  have items1: "assetsForMinify example_collaborators ?s1 = [?e]"
    by (simp add: assetsForMinify_def survives_def lookup_def Let_def example_state_def
        example_collaborators_def page_def)
  have hits1: "\<forall>i \<in> set (assetsForMinify example_collaborators ?s1). item_output i \<noteq> None"
    using he by (simp add: items1)
  note t = pool_constructed_lazily_once [of example_collaborators 2 example_state
      "[?e]" ?a ?rest]
  note t1 = pool_constructed_lazily_once [of example_collaborators 2 ?s1]
  from t items hits ha obtain post where
    post: "events (snd (optimize example_collaborators 2 example_state)) =
      events example_state
        @ ThrottleAll (limit_of (numberOfWorkers 2
            (assetsForMinify example_collaborators example_state))
            (assetsForMinify example_collaborators example_state))
            (length (assetsForMinify example_collaborators example_state))
        # concat (map (trace example_collaborators (numberOfWorkers 2
            (assetsForMinify example_collaborators example_state))) [?e])
        @ NewWorker (min (numberOfAssets (assetsForMinify example_collaborators example_state)) 2)
        # Transform (options_of example_collaborators ?a) # post"
    and pp: "pools post = []"
    by auto
  have n: "numberOfAssets (assetsForMinify example_collaborators example_state) = 3"
    unfolding items
    by (simp add: numberOfAssets_def lookup_def Let_def example_state_def
        example_collaborators_def page_def)
  have l: "length (assetsForMinify example_collaborators example_state) = 4"
    unfolding items by simp
  have w2: "numberOfWorkers 2 (assetsForMinify example_collaborators example_state) = Some 2"
    by (simp add: numberOfWorkers_def n)
  have lim: "limit_of (Some 2) (assetsForMinify example_collaborators example_state) = 2"
    by (simp add: limit_of_def n)
  have tr: "trace example_collaborators (Some 2) ?e = [UpdateAsset ''e.html'']"
    by (simp add: trace_def he name_lookup replayable_def cached_e_def)
  have op: "options_of example_collaborators ?a =
      \<lparr>opt_name = ''a.html'', opt_input = ''<p> hi </p>''\<rparr>"
    by (simp add: options_of_def lookup_def Let_def page_def)
  have ev0: "events example_state = []"
    by (simp add: example_state_def)
  have ev: "events (snd (optimize example_collaborators 2 example_state)) =
         [ThrottleAll 2 4, UpdateAsset ''e.html'', NewWorker 2,
          Transform \<lparr>opt_name = ''a.html'', opt_input = ''<p> hi </p>''\<rparr>] @ post"
    by (simp add: post w2 lim l n tr op ev0)
  from t [THEN conjunct1]
  have le: "length (pools (events (snd (optimize example_collaborators 2 example_state)))) \<le> 1"
    by (simp add: ev0 pools_simps)
  have ev1: "events ?s1 = []"
    by (simp add: example_state_def)
  from t1 [THEN conjunct2, THEN conjunct1] hits1
  have p1: "pools (events (snd (optimize example_collaborators 2 ?s1))) = []"
    by (simp add: ev1 pools_simps)
  from ev pp have ex: "\<exists>post. events (snd (optimize example_collaborators 2 example_state)) =
         [ThrottleAll 2 4, UpdateAsset ''e.html'', NewWorker 2,
          Transform \<lparr>opt_name = ''a.html'', opt_input = ''<p> hi </p>''\<rparr>] @ post
        \<and> pools post = []"
    by blast
  show ?thesis
    using items he ha le ex items1 p1 by simp
qed

end
